theory Spec2Isabelle
  imports Main "HOL-Library.Word"
begin

section \<open>The CDC USB console: data model\<close>

text \<open>
  The development embeds \<^verbatim>\<open>CDC_Console_USB/CDC_USB/cdc_usb_platform.c\<close>. Bytes
  (\<^verbatim>\<open>uint8_t\<close> and \<^verbatim>\<open>char\<close>) are 8-bit words, the arrays of the module are byte
  lists of length \<^verbatim>\<open>APP_READ_BUFFER_SIZE\<close>, and a C string is the run of bytes in
  front of the first NUL of an array.
\<close>

type_synonym byte = "8 word"

definition APP_READ_BUFFER_SIZE :: nat where
  "APP_READ_BUFFER_SIZE = 512"

definition CDC_USB_LINE_TERMINATOR :: byte where
  "CDC_USB_LINE_TERMINATOR = 13"

text \<open>The literal \<^verbatim>\<open>"\n\rReset line\r\n"\<close>, byte by byte.\<close>

definition CDC_USB_RESET_LINE_RESPONSE :: "byte list" where
  "CDC_USB_RESET_LINE_RESPONSE =
     [10, 13, 82, 101, 115, 101, 116, 32, 108, 105, 110, 101, 13, 10]"

definition CDC_USB_RESET_LINE_CHAR_1 :: byte where
  "CDC_USB_RESET_LINE_CHAR_1 = 7"

definition CDC_USB_RESET_LINE_CHAR_2 :: byte where
  "CDC_USB_RESET_LINE_CHAR_2 = 8"

text \<open>
  The result codes and transfer handles belong to the USB stack, whose headers are not
  among the sources. The module compares results with two constants only, so every other
  code of the stack is one constructor with its number.
\<close>

datatype USB_DEVICE_CDC_RESULT =
    USB_DEVICE_CDC_RESULT_OK
  | USB_DEVICE_CDC_RESULT_ERROR
  | USB_DEVICE_CDC_RESULT_OTHER nat

type_synonym USB_DEVICE_CDC_TRANSFER_HANDLE = "32 word"

definition USB_DEVICE_CDC_TRANSFER_HANDLE_INVALID :: USB_DEVICE_CDC_TRANSFER_HANDLE where
  "USB_DEVICE_CDC_TRANSFER_HANDLE_INVALID = - 1"

text \<open>
  A registered callback is a code address; \<open>None\<close> is the NULL pointer. The pointer
  handed to the line callback designates one of the arrays of the module.
\<close>

type_synonym fn_ptr = nat

datatype buffer_ref = Ref_commandBuffer | Ref_cdcReadBuffer | Ref_cdcWriteBuffer

text \<open>
  Every call that leaves the module is appended to a log, in program order: the calls into
  the USB stack and the calls of the two registered callbacks. A write carries the bytes
  the stack is given (the write buffer up to the length passed); a line callback carries the
  pointer it is passed and the C string found there while the callback runs.
\<close>

datatype io =
    Call_CDC_Read nat
  | Call_CDC_Write "byte list"
  | Call_CDC_EventHandlerSet
  | Call_ControlSend
  | Call_ControlReceive
  | Call_ControlStatus
  | Call_Attach
  | Call_Detach
  | Call_return_line fn_ptr buffer_ref "byte list"
  | Call_console_ready fn_ptr

text \<open>
  The globals of the module in one record: the fields of \<^verbatim>\<open>usbState\<close> that the
  module reads or writes (the two buffer pointers stand for the arrays they point to),
  \<^verbatim>\<open>commandBuffer\<close>, the 8-bit \<^verbatim>\<open>command_index\<close>, the two callback slots, and the
  log.
\<close>

record console =
  isConfigured :: bool
  dtr :: bool
  carrier :: bool
  readTransferHandle :: USB_DEVICE_CDC_TRANSFER_HANDLE
  writeTransferHandle :: USB_DEVICE_CDC_TRANSFER_HANDLE
  isReadComplete :: bool
  isWriteComplete :: bool
  breakData :: "16 word"
  cdcReadBuffer :: "byte list"
  cdcWriteBuffer :: "byte list"
  numBytesRead :: "32 word"
  commandBuffer :: "byte list"
  command_index :: byte
  return_line_callback :: "fn_ptr option"
  console_ready_callback :: "fn_ptr option"
  io_log :: "io list"

text \<open>The static initialisers of the module; arrays with static storage start zeroed.\<close>

definition console_init :: console where
  "console_init =
     \<lparr> isConfigured = False, dtr = False, carrier = False,
       readTransferHandle = USB_DEVICE_CDC_TRANSFER_HANDLE_INVALID,
       writeTransferHandle = USB_DEVICE_CDC_TRANSFER_HANDLE_INVALID,
       isReadComplete = False, isWriteComplete = True, breakData = 0,
       cdcReadBuffer = replicate APP_READ_BUFFER_SIZE 0,
       cdcWriteBuffer = replicate APP_READ_BUFFER_SIZE 0,
       numBytesRead = 0,
       commandBuffer = replicate APP_READ_BUFFER_SIZE 0,
       command_index = 0,
       return_line_callback = None, console_ready_callback = None,
       io_log = [] \<rparr>"

text \<open>
  What the USB stack answers to the submissions made while one event is handled: the
  result and the handle of \<^verbatim>\<open>USB_DEVICE_CDC_Read\<close> and of \<^verbatim>\<open>USB_DEVICE_CDC_Write\<close>.
  No handler of the module submits more than one read and one write.
\<close>

record transport =
  read_result :: USB_DEVICE_CDC_RESULT
  read_handle :: USB_DEVICE_CDC_TRANSFER_HANDLE
  write_result :: USB_DEVICE_CDC_RESULT
  write_handle :: USB_DEVICE_CDC_TRANSFER_HANDLE

datatype USB_DEVICE_EVENT =
    USB_DEVICE_EVENT_SOF
  | USB_DEVICE_EVENT_RESET
  | USB_DEVICE_EVENT_CONFIGURED byte
  | USB_DEVICE_EVENT_POWER_DETECTED
  | USB_DEVICE_EVENT_POWER_REMOVED
  | USB_DEVICE_EVENT_SUSPENDED
  | USB_DEVICE_EVENT_RESUMED
  | USB_DEVICE_EVENT_ERROR
  | USB_DEVICE_EVENT_OTHER nat

datatype USB_DEVICE_CDC_EVENT =
    USB_DEVICE_CDC_EVENT_GET_LINE_CODING
  | USB_DEVICE_CDC_EVENT_SET_LINE_CODING
  | USB_DEVICE_CDC_EVENT_SET_CONTROL_LINE_STATE bool bool
  | USB_DEVICE_CDC_EVENT_SEND_BREAK "16 word"
  | USB_DEVICE_CDC_EVENT_READ_COMPLETE USB_DEVICE_CDC_RESULT "32 word"
  | USB_DEVICE_CDC_EVENT_CONTROL_TRANSFER_DATA_RECEIVED
  | USB_DEVICE_CDC_EVENT_CONTROL_TRANSFER_DATA_SENT
  | USB_DEVICE_CDC_EVENT_WRITE_COMPLETE USB_DEVICE_CDC_RESULT
  | USB_DEVICE_CDC_EVENT_OTHER nat

section \<open>C strings\<close>

text \<open>
  \<open>c_str\<close> reads the string that starts an array: \<open>None\<close> when the array holds no
  NUL, where the C code would read past its end. \<open>sprintf_s\<close> is
  \<^verbatim>\<open>sprintf(dst, "%s", s)\<close> for a string \<open>s\<close> without NUL: the bytes of \<open>s\<close> and
  a NUL overwrite the front of \<open>dst\<close>; \<open>None\<close> when they do not fit.
\<close>

definition c_str :: "byte list \<Rightarrow> byte list option" where
  "c_str buf = (if 0 \<in> set buf then Some (takeWhile (\<lambda>b. b \<noteq> 0) buf) else None)"

definition sprintf_s :: "byte list \<Rightarrow> byte list \<Rightarrow> byte list option" where
  "sprintf_s dst s =
     (if length s < length dst then Some (s @ 0 # drop (length s + 1) dst) else None)"

definition deref :: "console \<Rightarrow> buffer_ref \<Rightarrow> byte list" where
  "deref st r =
     (case r of Ref_commandBuffer \<Rightarrow> commandBuffer st
              | Ref_cdcReadBuffer \<Rightarrow> cdcReadBuffer st
              | Ref_cdcWriteBuffer \<Rightarrow> cdcWriteBuffer st)"

section \<open>The operations of the module\<close>

definition log_call :: "io \<Rightarrow> console \<Rightarrow> console" where
  "log_call e st = st\<lparr>io_log := io_log st @ [e]\<rparr>"

text \<open>
  The two submissions to the USB stack. The stack stores the handle through the pointer it
  is given and returns its result; both come from the \<open>transport\<close> argument.
\<close>

definition USB_DEVICE_CDC_Read :: "transport \<Rightarrow> console \<Rightarrow> USB_DEVICE_CDC_RESULT \<times> console" where
  "USB_DEVICE_CDC_Read tr st =
     (read_result tr,
      log_call (Call_CDC_Read APP_READ_BUFFER_SIZE) (st\<lparr>readTransferHandle := read_handle tr\<rparr>))"

definition USB_DEVICE_CDC_Write ::
    "transport \<Rightarrow> nat \<Rightarrow> console \<Rightarrow> USB_DEVICE_CDC_RESULT \<times> console" where
  "USB_DEVICE_CDC_Write tr n st =
     (write_result tr,
      log_call (Call_CDC_Write (take n (cdcWriteBuffer st)))
        (st\<lparr>writeTransferHandle := write_handle tr\<rparr>))"

definition cdc_usb_initialize :: "transport \<Rightarrow> console \<Rightarrow> bool \<times> console" where
  "cdc_usb_initialize tr st =
     (let st1 = st\<lparr>command_index := 0,
                    cdcReadBuffer := (cdcReadBuffer st)[0 := 0],
                    cdcWriteBuffer := (cdcWriteBuffer st)[0 := 0],
                    commandBuffer := (commandBuffer st)[0 := 0]\<rparr>
      in if isConfigured st1 = True then
           (let (result, st2) =
                  USB_DEVICE_CDC_Read tr
                    (st1\<lparr>readTransferHandle := USB_DEVICE_CDC_TRANSFER_HANDLE_INVALID\<rparr>);
                st3 = st2\<lparr>isReadComplete := False\<rparr>
            in if result \<noteq> USB_DEVICE_CDC_RESULT_OK then (False, st3) else (True, st3))
         else (False, st1))"

text \<open>
  \<^verbatim>\<open>cdc_usb_console_ready\<close> calls the ready callback when one is registered. The
  callback is application code and is logged as a call; what it does to the module
  afterwards (the one of \<^verbatim>\<open>main.cpp\<close> writes a menu) is a call of its own.
\<close>

definition cdc_usb_console_ready :: "console \<Rightarrow> console" where
  "cdc_usb_console_ready st =
     (case console_ready_callback st of
        None \<Rightarrow> st
      | Some f \<Rightarrow> log_call (Call_console_ready f) st)"

fun APP_USBDeviceEventHandler :: "transport \<Rightarrow> USB_DEVICE_EVENT \<Rightarrow> console \<Rightarrow> console" where
  "APP_USBDeviceEventHandler tr USB_DEVICE_EVENT_SOF st = st"
| "APP_USBDeviceEventHandler tr USB_DEVICE_EVENT_RESET st = st\<lparr>isConfigured := False\<rparr>"
| "APP_USBDeviceEventHandler tr (USB_DEVICE_EVENT_CONFIGURED configurationValue) st =
     (if configurationValue = 1 then
        (let st1 = log_call Call_CDC_EventHandlerSet st;
             st2 = st1\<lparr>isConfigured := True\<rparr>;
             (ok, st3) = cdc_usb_initialize tr st2
         in if ok then cdc_usb_console_ready st3 else st3)
      else st)"
| "APP_USBDeviceEventHandler tr USB_DEVICE_EVENT_POWER_DETECTED st = log_call Call_Attach st"
| "APP_USBDeviceEventHandler tr USB_DEVICE_EVENT_POWER_REMOVED st =
     (log_call Call_Detach st)\<lparr>isConfigured := False\<rparr>"
| "APP_USBDeviceEventHandler tr USB_DEVICE_EVENT_SUSPENDED st = st"
| "APP_USBDeviceEventHandler tr USB_DEVICE_EVENT_RESUMED st = st"
| "APP_USBDeviceEventHandler tr USB_DEVICE_EVENT_ERROR st = st"
| "APP_USBDeviceEventHandler tr (USB_DEVICE_EVENT_OTHER n) st = st"

text \<open>
  \<^verbatim>\<open>cdc_usb_return_line\<close>: the callback, when one is registered, is called with the
  address of \<^verbatim>\<open>commandBuffer\<close> itself; then the index and the first byte of the buffer
  are cleared. The callback is application code: it is taken not to call back into the
  module (the handler of \<^verbatim>\<open>main.cpp\<close> copies the string and sets a flag).
\<close>

definition cdc_usb_return_line :: "console \<Rightarrow> console" where
  "cdc_usb_return_line st =
     (let st1 = (case return_line_callback st of
                   None \<Rightarrow> st
                 | Some f \<Rightarrow>
                     log_call (Call_return_line f Ref_commandBuffer
                                 (takeWhile (\<lambda>b. b \<noteq> 0) (commandBuffer st))) st)
      in st1\<lparr>command_index := 0, commandBuffer := (commandBuffer st1)[0 := 0]\<rparr>)"

text \<open>
  \<^verbatim>\<open>cdc_usb_write\<close>. The argument is NULL (\<open>None\<close>) or the array the pointer
  designates, from the pointer on; an array has at least one byte. The result is
  \<open>None\<close> where the C code leaves the arrays: an argument without NUL, or a string
  that does not fit the write buffer. The length passed to the USB stack is
  \<^verbatim>\<open>strlen\<close> of the write buffer, which is the length of the string just copied.
\<close>

definition cdc_usb_write :: "transport \<Rightarrow> byte list option \<Rightarrow> console \<Rightarrow> (bool \<times> console) option" where
  "cdc_usb_write tr data st =
     (case data of
        None \<Rightarrow> Some (False, st)
      | Some [] \<Rightarrow> None
      | Some (d0 # ds) \<Rightarrow>
          if d0 = 0 then Some (False, st)
          else if isConfigured st = False \<or> isWriteComplete st = False then Some (False, st)
          else
            (case c_str (d0 # ds) of
               None \<Rightarrow> None
             | Some s \<Rightarrow>
                 (case sprintf_s (cdcWriteBuffer st) s of
                    None \<Rightarrow> None
                  | Some wb \<Rightarrow>
                      (let st1 = st\<lparr>cdcWriteBuffer := wb,
                                     isWriteComplete := False,
                                     writeTransferHandle := USB_DEVICE_CDC_TRANSFER_HANDLE_INVALID\<rparr>;
                           (result, st2) = USB_DEVICE_CDC_Write tr (length s) st1
                       in if result \<noteq> USB_DEVICE_CDC_RESULT_OK then Some (False, st2)
                          else Some (True, st2)))))"

text \<open>
  The scan loop of \<^verbatim>\<open>cdc_usb_read_line\<close>, from index \<open>i\<close>, with the local array
  \<^verbatim>\<open>receivedBuffer\<close> as third argument. The counter \<open>i\<close> is a \<^verbatim>\<open>uint16_t\<close>; it
  stays below the array size wherever the loop goes on, since an index outside the read
  buffer ends the model with \<open>None\<close>. The store through the 8-bit \<^verbatim>\<open>command_index\<close>
  and its increment wrap as 8-bit words do.
\<close>

function read_line_loop :: "nat \<Rightarrow> console \<Rightarrow> byte list \<Rightarrow> (console \<times> byte list) option" where
  "read_line_loop i st receivedBuffer =
     (if i < unat (numBytesRead st) then
        (if APP_READ_BUFFER_SIZE \<le> i then None
         else
           (let c = cdcReadBuffer st ! i in
            if c = CDC_USB_LINE_TERMINATOR then
              Some (cdc_usb_return_line
                      (st\<lparr>commandBuffer := (commandBuffer st)[unat (command_index st) := 0]\<rparr>),
                    receivedBuffer)
            else if c = CDC_USB_RESET_LINE_CHAR_1 \<or> c = CDC_USB_RESET_LINE_CHAR_2 then
              (case sprintf_s receivedBuffer CDC_USB_RESET_LINE_RESPONSE of
                 None \<Rightarrow> None
               | Some rb \<Rightarrow> Some (st\<lparr>command_index := 0\<rparr>, rb))
            else
              read_line_loop (i + 1)
                (st\<lparr>commandBuffer := (commandBuffer st)[unat (command_index st) := c],
                    command_index := command_index st + 1\<rparr>)
                (receivedBuffer[i := c])))
      else Some (st, receivedBuffer))"
  by pat_completeness auto
termination
  by (relation "measure (\<lambda>(i, st, rb). unat (numBytesRead st) - i)") auto

declare read_line_loop.simps [simp del]

definition cdc_usb_read_line :: "transport \<Rightarrow> console \<Rightarrow> console option" where
  "cdc_usb_read_line tr st =
     (if numBytesRead st = 0 \<or> isReadComplete st = False then Some st
      else
        (case read_line_loop 0 st (replicate APP_READ_BUFFER_SIZE 0) of
           None \<Rightarrow> None
         | Some (st1, receivedBuffer) \<Rightarrow>
             (let st2 = st1\<lparr>isReadComplete := False, numBytesRead := 0\<rparr>;
                  (result, st3) = USB_DEVICE_CDC_Read tr st2
              in map_option snd (cdc_usb_write tr (Some receivedBuffer) st3))))"

fun APP_USBDeviceCDCEventHandler ::
    "transport \<Rightarrow> USB_DEVICE_CDC_EVENT \<Rightarrow> console \<Rightarrow> console option" where
  "APP_USBDeviceCDCEventHandler tr USB_DEVICE_CDC_EVENT_GET_LINE_CODING st =
     Some (log_call Call_ControlSend st)"
| "APP_USBDeviceCDCEventHandler tr USB_DEVICE_CDC_EVENT_SET_LINE_CODING st =
     Some (log_call Call_ControlReceive st)"
| "APP_USBDeviceCDCEventHandler tr (USB_DEVICE_CDC_EVENT_SET_CONTROL_LINE_STATE d c) st =
     Some (log_call Call_ControlStatus (st\<lparr>dtr := d, carrier := c\<rparr>))"
| "APP_USBDeviceCDCEventHandler tr (USB_DEVICE_CDC_EVENT_SEND_BREAK breakDuration) st =
     Some (log_call Call_ControlStatus (st\<lparr>breakData := breakDuration\<rparr>))"
| "APP_USBDeviceCDCEventHandler tr (USB_DEVICE_CDC_EVENT_READ_COMPLETE status len) st =
     (if status \<noteq> USB_DEVICE_CDC_RESULT_ERROR then
        cdc_usb_read_line tr (st\<lparr>isReadComplete := True, numBytesRead := len\<rparr>)
      else Some st)"
| "APP_USBDeviceCDCEventHandler tr USB_DEVICE_CDC_EVENT_CONTROL_TRANSFER_DATA_RECEIVED st =
     Some (log_call Call_ControlStatus st)"
| "APP_USBDeviceCDCEventHandler tr USB_DEVICE_CDC_EVENT_CONTROL_TRANSFER_DATA_SENT st = Some st"
| "APP_USBDeviceCDCEventHandler tr (USB_DEVICE_CDC_EVENT_WRITE_COMPLETE status) st =
     Some (st\<lparr>isWriteComplete := True\<rparr>)"
| "APP_USBDeviceCDCEventHandler tr (USB_DEVICE_CDC_EVENT_OTHER n) st = Some st"

definition cdc_usb_return_line_callback_register :: "fn_ptr option \<Rightarrow> console \<Rightarrow> console" where
  "cdc_usb_return_line_callback_register callback st = st\<lparr>return_line_callback := callback\<rparr>"

definition cdc_usb_return_line_callback_unregister :: "console \<Rightarrow> console" where
  "cdc_usb_return_line_callback_unregister st = st\<lparr>return_line_callback := None\<rparr>"

definition cdc_usb_console_ready_callback_register :: "fn_ptr option \<Rightarrow> console \<Rightarrow> console" where
  "cdc_usb_console_ready_callback_register callback st = st\<lparr>console_ready_callback := callback\<rparr>"

definition cdc_usb_console_ready_callback_unregister :: "console \<Rightarrow> console" where
  "cdc_usb_console_ready_callback_unregister st = st\<lparr>console_ready_callback := None\<rparr>"

section \<open>The transport side of a read\<close>

text \<open>
  A read completes after the USB stack has stored the received chunk at the start of the
  read buffer it was armed with; the completion event then reports the chunk's length.
\<close>

definition usb_rx :: "byte list \<Rightarrow> console \<Rightarrow> console" where
  "usb_rx chunk st = st\<lparr>cdcReadBuffer := chunk @ drop (length chunk) (cdcReadBuffer st)\<rparr>"

definition read_complete :: "transport \<Rightarrow> byte list \<Rightarrow> console \<Rightarrow> console option" where
  "read_complete tr chunk st =
     APP_USBDeviceCDCEventHandler tr
       (USB_DEVICE_CDC_EVENT_READ_COMPLETE USB_DEVICE_CDC_RESULT_OK (of_nat (length chunk)))
       (usb_rx chunk st)"

text \<open>The same with the status the USB stack reports left open.\<close>

definition read_complete_status ::
    "USB_DEVICE_CDC_RESULT \<Rightarrow> transport \<Rightarrow> byte list \<Rightarrow> console \<Rightarrow> console option" where
  "read_complete_status status tr chunk st =
     APP_USBDeviceCDCEventHandler tr
       (USB_DEVICE_CDC_EVENT_READ_COMPLETE status (of_nat (length chunk)))
       (usb_rx chunk st)"

section \<open>Vocabulary of the statements\<close>

text \<open>
  The definitions of this section are not code of the module. They name what the
  statements below talk about: states whose arrays have their declared size, the bytes
  without a control meaning, the effect of the loop on a run of such bytes, what one call
  leaves in the log, and a few concrete states and transports.
\<close>

definition console_wf :: "console \<Rightarrow> bool" where
  "console_wf st \<longleftrightarrow>
     length (cdcReadBuffer st) = APP_READ_BUFFER_SIZE \<and>
     length (cdcWriteBuffer st) = APP_READ_BUFFER_SIZE \<and>
     length (commandBuffer st) = APP_READ_BUFFER_SIZE"

text \<open>A plain byte takes the last branch of the loop: neither terminator nor reset.\<close>

definition plain :: "byte \<Rightarrow> bool" where
  "plain c \<longleftrightarrow>
     c \<noteq> CDC_USB_LINE_TERMINATOR \<and> c \<noteq> CDC_USB_RESET_LINE_CHAR_1 \<and>
     c \<noteq> CDC_USB_RESET_LINE_CHAR_2"

text \<open>
  What the last branch of the loop does to the globals for a run of plain bytes
  (\<open>store_chars\<close>), and to the local echo array from index \<open>i\<close> on (\<open>echo_chars\<close>).
\<close>

fun store_chars :: "byte list \<Rightarrow> console \<Rightarrow> console" where
  "store_chars [] st = st"
| "store_chars (c # cs) st =
     store_chars cs
       (st\<lparr>commandBuffer := (commandBuffer st)[unat (command_index st) := c],
           command_index := command_index st + 1\<rparr>)"

fun echo_chars :: "nat \<Rightarrow> byte list \<Rightarrow> byte list \<Rightarrow> byte list" where
  "echo_chars i [] rb = rb"
| "echo_chars i (c # cs) rb = echo_chars (i + 1) cs (rb[i := c])"

text \<open>
  \<open>rx_state\<close> is the state in which \<^verbatim>\<open>cdc_usb_read_line\<close> is entered for a chunk,
  \<open>scan_chunk\<close> the loop run on it from a zeroed \<^verbatim>\<open>receivedBuffer\<close>, and \<open>outbound\<close>
  the C string in \<^verbatim>\<open>receivedBuffer\<close> after the loop, which is what \<^verbatim>\<open>cdc_usb_write\<close> is
  handed. \<open>terminate_line\<close> is the store of the terminator branch, \<open>echo_buffer\<close> a
  zeroed echo array with \<open>cs\<close> at its front.
\<close>

definition rx_state :: "byte list \<Rightarrow> console \<Rightarrow> console" where
  "rx_state chunk st =
     (usb_rx chunk st)\<lparr>isReadComplete := True, numBytesRead := of_nat (length chunk)\<rparr>"

definition scan_chunk :: "byte list \<Rightarrow> console \<Rightarrow> (console \<times> byte list) option" where
  "scan_chunk chunk st = read_line_loop 0 (rx_state chunk st) (replicate APP_READ_BUFFER_SIZE 0)"

definition outbound :: "byte list \<Rightarrow> console \<Rightarrow> byte list option" where
  "outbound chunk st = (case scan_chunk chunk st of None \<Rightarrow> None | Some (st1, rb) \<Rightarrow> c_str rb)"

definition terminate_line :: "console \<Rightarrow> console" where
  "terminate_line st = st\<lparr>commandBuffer := (commandBuffer st)[unat (command_index st) := 0]\<rparr>"

definition echo_buffer :: "byte list \<Rightarrow> byte list" where
  "echo_buffer cs = cs @ replicate (APP_READ_BUFFER_SIZE - length cs) 0"

text \<open>
  The echo of a chunk keeps its NUL inside the 512 bytes of \<^verbatim>\<open>receivedBuffer\<close> unless the
  chunk fills the array with plain bytes other than NUL; \<^verbatim>\<open>cdc_usb_write\<close> would then read
  past the array.
\<close>

definition echo_fits :: "byte list \<Rightarrow> bool" where
  "echo_fits chunk \<longleftrightarrow>
     length chunk < APP_READ_BUFFER_SIZE \<or> 0 \<in> set chunk \<or>
     CDC_USB_LINE_TERMINATOR \<in> set chunk \<or> CDC_USB_RESET_LINE_CHAR_1 \<in> set chunk \<or>
     CDC_USB_RESET_LINE_CHAR_2 \<in> set chunk"

text \<open>
  Readings of the log: the byte strings of the writes submitted, the number of reads
  submitted, the strings the line callback was called with, the number of ready calls.
\<close>

definition cdc_writes :: "io list \<Rightarrow> byte list list" where
  "cdc_writes l = concat (map (\<lambda>e. case e of Call_CDC_Write bs \<Rightarrow> [bs] | _ \<Rightarrow> []) l)"

definition cdc_reads :: "io list \<Rightarrow> nat" where
  "cdc_reads l = length (filter (\<lambda>e. case e of Call_CDC_Read n \<Rightarrow> True | _ \<Rightarrow> False) l)"

definition line_calls :: "io list \<Rightarrow> byte list list" where
  "line_calls l = concat (map (\<lambda>e. case e of Call_return_line f r s \<Rightarrow> [s] | _ \<Rightarrow> []) l)"

definition ready_calls :: "io list \<Rightarrow> nat" where
  "ready_calls l = length (filter (\<lambda>e. case e of Call_console_ready f \<Rightarrow> True | _ \<Rightarrow> False) l)"

text \<open>
  The tail of \<^verbatim>\<open>cdc_usb_read_line\<close> in two steps: \<open>rearm\<close> clears the read flags and
  submits the next read; \<open>submit_echo\<close> is the state \<^verbatim>\<open>cdc_usb_write\<close> leaves for a
  string \<open>s\<close> that fits the write buffer. \<open>string_at\<close> reads the C string a pointer
  designates in a state.
\<close>

definition rearm :: "transport \<Rightarrow> console \<Rightarrow> console" where
  "rearm tr st = snd (USB_DEVICE_CDC_Read tr (st\<lparr>isReadComplete := False, numBytesRead := 0\<rparr>))"

definition submit_echo :: "transport \<Rightarrow> byte list \<Rightarrow> console \<Rightarrow> console" where
  "submit_echo tr s st =
     (if s = [] \<or> \<not> isConfigured st \<or> \<not> isWriteComplete st then st
      else st\<lparr>cdcWriteBuffer := s @ 0 # drop (length s + 1) (cdcWriteBuffer st),
              isWriteComplete := False,
              writeTransferHandle := write_handle tr,
              io_log := io_log st @ [Call_CDC_Write s]\<rparr>)"

definition string_at :: "buffer_ref \<Rightarrow> console \<Rightarrow> byte list option" where
  "string_at r st = c_str (deref st r)"

text \<open>A line that arrives in several chunks: one read completion after the other.\<close>

fun deliver :: "transport \<Rightarrow> byte list list \<Rightarrow> console \<Rightarrow> console option" where
  "deliver tr [] st = Some st"
| "deliver tr (chunk # chunks) st =
     (case read_complete tr chunk st of
        None \<Rightarrow> None
      | Some st' \<Rightarrow> deliver tr chunks st')"

text \<open>
  Concrete inputs. \<open>tr_ok\<close> is a USB stack that accepts every submission, \<open>tr_fail\<close>
  one that refuses them. \<open>console_registered\<close> is the module after start-up with both
  callbacks registered, \<open>console_ready_state\<close> the same after the configuration event,
  \<open>console_busy_state\<close> after a first write \<^verbatim>\<open>"hello"\<close> that has not completed, and
  \<open>console_lost_state\<close> after a device reset.
\<close>

definition tr_ok :: transport where
  "tr_ok = \<lparr> read_result = USB_DEVICE_CDC_RESULT_OK, read_handle = 1,
             write_result = USB_DEVICE_CDC_RESULT_OK, write_handle = 2 \<rparr>"

definition tr_fail :: transport where
  "tr_fail = \<lparr> read_result = USB_DEVICE_CDC_RESULT_ERROR,
               read_handle = USB_DEVICE_CDC_TRANSFER_HANDLE_INVALID,
               write_result = USB_DEVICE_CDC_RESULT_ERROR,
               write_handle = USB_DEVICE_CDC_TRANSFER_HANDLE_INVALID \<rparr>"

definition console_registered :: console where
  "console_registered =
     cdc_usb_console_ready_callback_register (Some 2)
       (cdc_usb_return_line_callback_register (Some 1) console_init)"

definition console_ready_state :: console where
  "console_ready_state =
     APP_USBDeviceEventHandler tr_ok (USB_DEVICE_EVENT_CONFIGURED 1) console_registered"

definition console_busy_state :: console where
  "console_busy_state =
     (case cdc_usb_write tr_ok (Some [104, 101, 108, 108, 111, 0]) console_ready_state of
        Some (ok, st) \<Rightarrow> st
      | None \<Rightarrow> console_ready_state)"

definition console_lost_state :: console where
  "console_lost_state = APP_USBDeviceEventHandler tr_ok USB_DEVICE_EVENT_RESET console_ready_state"

section \<open>The scan loop on a run of plain bytes\<close>

lemma store_chars_frame [simp]:
  "isConfigured (store_chars cs st) = isConfigured st"
  "isReadComplete (store_chars cs st) = isReadComplete st"
  "isWriteComplete (store_chars cs st) = isWriteComplete st"
  "cdcReadBuffer (store_chars cs st) = cdcReadBuffer st"
  "cdcWriteBuffer (store_chars cs st) = cdcWriteBuffer st"
  "numBytesRead (store_chars cs st) = numBytesRead st"
  "return_line_callback (store_chars cs st) = return_line_callback st"
  "console_ready_callback (store_chars cs st) = console_ready_callback st"
  "io_log (store_chars cs st) = io_log st"
  "length (commandBuffer (store_chars cs st)) = length (commandBuffer st)"
  by (induction cs arbitrary: st; simp)+

lemma store_chars_index:
  "command_index (store_chars cs st) = command_index st + of_nat (length cs)"
  by (induction cs arbitrary: st) simp_all

lemma echo_chars_length [simp]: "length (echo_chars i cs rb) = length rb"
  by (induction cs arbitrary: i rb) simp_all

lemma echo_chars_eq:
  "i + length cs \<le> length rb \<Longrightarrow> echo_chars i cs rb = take i rb @ cs @ drop (i + length cs) rb"
proof (induction cs arbitrary: i rb)
  case Nil
  then show ?case by simp
next
  case (Cons c cs)
  have i: "i < length rb" using Cons.prems by simp
  have "echo_chars i (c # cs) rb = echo_chars (Suc i) cs (rb[i := c])" by simp
  also have "\<dots> = take (Suc i) (rb[i := c]) @ cs @ drop (Suc i + length cs) (rb[i := c])"
    using Cons.prems by (intro Cons.IH) simp
  also have "take (Suc i) (rb[i := c]) = take i rb @ [c]"
    using i by (simp add: take_Suc_conv_app_nth)
  also have "drop (Suc i + length cs) (rb[i := c]) = drop (i + length (c # cs)) rb"
    by simp
  finally show ?case by simp
qed

lemma loop_plain_run:
  assumes "\<forall>c\<in>set cs. plain c"
    and "take (length cs) (drop i (cdcReadBuffer st)) = cs"
    and "i + length cs \<le> unat (numBytesRead st)"
    and "i + length cs \<le> APP_READ_BUFFER_SIZE"
  shows "read_line_loop i st rb =
         read_line_loop (i + length cs) (store_chars cs st) (echo_chars i cs rb)"
  using assms
proof (induction cs arbitrary: i st rb)
  case Nil
  then show ?case by simp
next
  case (Cons c cs)
  let ?st = "st\<lparr>commandBuffer := (commandBuffer st)[unat (command_index st) := c],
                 command_index := command_index st + 1\<rparr>"
  obtain y ys where dr: "drop i (cdcReadBuffer st) = y # ys"
    using Cons.prems(2) by (cases "drop i (cdcReadBuffer st)") auto
  with Cons.prems(2) have yc: "y = c" and ys: "take (length cs) ys = cs" by simp_all
  have nth: "cdcReadBuffer st ! i = c"
    using dr yc by (simp add: nth_via_drop)
  have "drop (Suc i) (cdcReadBuffer st) = ys"
    using dr by (metis drop_Suc list.sel(3) tl_drop)
  with ys have rest: "take (length cs) (drop (Suc i) (cdcReadBuffer st)) = cs" by simp
  have pl: "plain c" using Cons.prems(1) by simp
  have step: "read_line_loop i st rb = read_line_loop (i + 1) ?st (rb[i := c])"
    using Cons.prems(3,4) nth pl
    by (subst read_line_loop.simps) (simp add: plain_def Let_def)
  have "read_line_loop (Suc i) ?st (rb[i := c]) =
        read_line_loop (Suc i + length cs) (store_chars cs ?st) (echo_chars (Suc i) cs (rb[i := c]))"
    using Cons.prems rest by (intro Cons.IH) simp_all
  with step show ?case by simp
qed

section \<open>One chunk, scanned\<close>

lemma rx_state_simps [simp]:
  "isConfigured (rx_state chunk st) = isConfigured st"
  "isWriteComplete (rx_state chunk st) = isWriteComplete st"
  "isReadComplete (rx_state chunk st) = True"
  "cdcWriteBuffer (rx_state chunk st) = cdcWriteBuffer st"
  "commandBuffer (rx_state chunk st) = commandBuffer st"
  "command_index (rx_state chunk st) = command_index st"
  "return_line_callback (rx_state chunk st) = return_line_callback st"
  "console_ready_callback (rx_state chunk st) = console_ready_callback st"
  "io_log (rx_state chunk st) = io_log st"
  "cdcReadBuffer (rx_state chunk st) = chunk @ drop (length chunk) (cdcReadBuffer st)"
  by (simp_all add: rx_state_def usb_rx_def)

lemma rx_state_numBytesRead:
  "length chunk \<le> APP_READ_BUFFER_SIZE \<Longrightarrow> unat (numBytesRead (rx_state chunk st)) = length chunk"
  by (simp add: rx_state_def APP_READ_BUFFER_SIZE_def unat_of_nat)

lemma echo_chars_zero:
  "length cs \<le> APP_READ_BUFFER_SIZE \<Longrightarrow>
   echo_chars 0 cs (replicate APP_READ_BUFFER_SIZE 0) = echo_buffer cs"
  by (simp add: echo_chars_eq echo_buffer_def)

lemma loop_done:
  "unat (numBytesRead st) \<le> i \<Longrightarrow> read_line_loop i st rb = Some (st, rb)"
  by (subst read_line_loop.simps) simp

lemma loop_terminator:
  "i < unat (numBytesRead st) \<Longrightarrow> i < APP_READ_BUFFER_SIZE \<Longrightarrow>
   cdcReadBuffer st ! i = CDC_USB_LINE_TERMINATOR \<Longrightarrow>
   read_line_loop i st rb = Some (cdc_usb_return_line (terminate_line st), rb)"
  by (subst read_line_loop.simps) (simp add: terminate_line_def)

lemma loop_reset:
  "i < unat (numBytesRead st) \<Longrightarrow> i < APP_READ_BUFFER_SIZE \<Longrightarrow>
   cdcReadBuffer st ! i = CDC_USB_RESET_LINE_CHAR_1 \<or> cdcReadBuffer st ! i = CDC_USB_RESET_LINE_CHAR_2 \<Longrightarrow>
   read_line_loop i st rb =
     map_option (Pair (st\<lparr>command_index := 0\<rparr>)) (sprintf_s rb CDC_USB_RESET_LINE_RESPONSE)"
  by (subst read_line_loop.simps)
     (auto simp: CDC_USB_LINE_TERMINATOR_def CDC_USB_RESET_LINE_CHAR_1_def
        CDC_USB_RESET_LINE_CHAR_2_def split: option.splits)

lemma scan_prefix:
  assumes "\<forall>c\<in>set pre. plain c" and "length (pre @ rest) \<le> APP_READ_BUFFER_SIZE"
  shows "scan_chunk (pre @ rest) st =
         read_line_loop (length pre) (store_chars pre (rx_state (pre @ rest) st)) (echo_buffer pre)"
proof -
  have "read_line_loop 0 (rx_state (pre @ rest) st) (replicate APP_READ_BUFFER_SIZE 0) =
        read_line_loop (0 + length pre) (store_chars pre (rx_state (pre @ rest) st))
          (echo_chars 0 pre (replicate APP_READ_BUFFER_SIZE 0))"
    using assms by (intro loop_plain_run) (simp_all add: rx_state_numBytesRead)
  then show ?thesis using assms by (simp add: scan_chunk_def echo_chars_zero)
qed

lemma scan_plain:
  assumes "\<forall>c\<in>set chunk. plain c" and "length chunk \<le> APP_READ_BUFFER_SIZE"
  shows "scan_chunk chunk st = Some (store_chars chunk (rx_state chunk st), echo_buffer chunk)"
  using scan_prefix [of chunk "[]" st] assms
  by (simp add: loop_done rx_state_numBytesRead)

lemma scan_terminator:
  assumes "\<forall>c\<in>set pre. plain c"
    and "length (pre @ CDC_USB_LINE_TERMINATOR # rest) \<le> APP_READ_BUFFER_SIZE"
  shows "scan_chunk (pre @ CDC_USB_LINE_TERMINATOR # rest) st =
         Some (cdc_usb_return_line
                 (terminate_line (store_chars pre (rx_state (pre @ CDC_USB_LINE_TERMINATOR # rest) st))),
               echo_buffer pre)"
proof -
  let ?S = "store_chars pre (rx_state (pre @ CDC_USB_LINE_TERMINATOR # rest) st)"
  have "read_line_loop (length pre) ?S (echo_buffer pre) =
        Some (cdc_usb_return_line (terminate_line ?S), echo_buffer pre)"
    using assms(2) by (intro loop_terminator) (simp_all add: rx_state_numBytesRead)
  with scan_prefix [OF assms] show ?thesis by simp
qed

lemma response_length: "length CDC_USB_RESET_LINE_RESPONSE = 14"
  by (simp add: CDC_USB_RESET_LINE_RESPONSE_def)

lemma sprintf_response:
  "length rb = APP_READ_BUFFER_SIZE \<Longrightarrow>
   sprintf_s rb CDC_USB_RESET_LINE_RESPONSE = Some (CDC_USB_RESET_LINE_RESPONSE @ 0 # drop 15 rb)"
  by (simp add: sprintf_s_def response_length APP_READ_BUFFER_SIZE_def)

lemma echo_buffer_length:
  "length cs \<le> APP_READ_BUFFER_SIZE \<Longrightarrow> length (echo_buffer cs) = APP_READ_BUFFER_SIZE"
  by (simp add: echo_buffer_def)

lemma scan_reset:
  assumes "\<forall>c\<in>set pre. plain c"
    and "r = CDC_USB_RESET_LINE_CHAR_1 \<or> r = CDC_USB_RESET_LINE_CHAR_2"
    and "length (pre @ r # rest) \<le> APP_READ_BUFFER_SIZE"
  shows "scan_chunk (pre @ r # rest) st =
         Some ((store_chars pre (rx_state (pre @ r # rest) st))\<lparr>command_index := 0\<rparr>,
               CDC_USB_RESET_LINE_RESPONSE @ 0 # drop 15 (echo_buffer pre))"
proof -
  let ?S = "store_chars pre (rx_state (pre @ r # rest) st)"
  have "read_line_loop (length pre) ?S (echo_buffer pre) =
        map_option (Pair (?S\<lparr>command_index := 0\<rparr>))
          (sprintf_s (echo_buffer pre) CDC_USB_RESET_LINE_RESPONSE)"
    using assms(2,3) by (intro loop_reset) (simp_all add: rx_state_numBytesRead)
  moreover have "length (echo_buffer pre) = APP_READ_BUFFER_SIZE"
    using assms(3) by (simp add: echo_buffer_length)
  ultimately show ?thesis
    using scan_prefix [OF assms(1,3)] by (simp add: sprintf_response)
qed

section \<open>The echo write\<close>

lemma c_str_Some:
  assumes "c_str d = Some s"
  shows "0 \<in> set d" and "s = takeWhile (\<lambda>b. b \<noteq> 0) d" and "length s < length d"
proof -
  show z: "0 \<in> set d" and s: "s = takeWhile (\<lambda>b. b \<noteq> 0) d"
    using assms by (auto simp: c_str_def split: if_splits)
  have "dropWhile (\<lambda>b. b \<noteq> 0) d \<noteq> []"
    using z by (auto simp: dropWhile_eq_Nil_conv)
  moreover have "length d = length (takeWhile (\<lambda>b. b \<noteq> 0) d) + length (dropWhile (\<lambda>b. b \<noteq> 0) d)"
    by (metis length_append takeWhile_dropWhile_id)
  ultimately show "length s < length d"
    using s by simp
qed

lemma cdc_usb_write_c_str:
  assumes "length (cdcWriteBuffer st) = APP_READ_BUFFER_SIZE"
    and "length d \<le> APP_READ_BUFFER_SIZE"
    and "c_str d = Some s"
  shows "cdc_usb_write tr (Some d) st =
         Some (s \<noteq> [] \<and> isConfigured st \<and> isWriteComplete st \<and>
                 write_result tr = USB_DEVICE_CDC_RESULT_OK,
               submit_echo tr s st)"
proof -
  note cs = c_str_Some [OF assms(3)]
  obtain d0 ds where d: "d = d0 # ds" using cs(1) by (cases d) auto
  have s0: "s = [] \<longleftrightarrow> d0 = 0" using cs(2) d by simp
  have fit: "sprintf_s (cdcWriteBuffer st) s = Some (s @ 0 # drop (length s + 1) (cdcWriteBuffer st))"
    using cs(3) assms(1,2) by (simp add: sprintf_s_def)
  show ?thesis
    using s0 fit assms(3) unfolding d
    by (auto simp add: cdc_usb_write_def submit_echo_def USB_DEVICE_CDC_Write_def log_call_def Let_def)
qed

lemma c_str_zero_padded:
  "0 < k \<Longrightarrow> c_str (cs @ replicate k 0) = Some (takeWhile (\<lambda>b. b \<noteq> 0) cs)"
proof (cases "0 \<in> set cs")
  case True
  then show ?thesis by (auto simp: c_str_def takeWhile_append)
next
  case False
  assume "0 < k"
  then obtain j where k: "k = Suc j" by (cases k) auto
  from False have all: "\<forall>b\<in>set cs. b \<noteq> 0" by auto
  then have tw: "takeWhile (\<lambda>b. b \<noteq> 0) cs = cs" by simp
  show ?thesis using all by (simp add: c_str_def k tw)
qed

lemma c_str_echo_buffer:
  "length cs < APP_READ_BUFFER_SIZE \<Longrightarrow>
   c_str (echo_buffer cs) = Some (takeWhile (\<lambda>b. b \<noteq> 0) cs)"
  by (simp add: echo_buffer_def c_str_zero_padded)

lemma c_str_echo_buffer_full:
  "0 \<in> set cs \<Longrightarrow> c_str (echo_buffer cs) = Some (takeWhile (\<lambda>b. b \<noteq> 0) cs)"
  by (auto simp: c_str_def echo_buffer_def takeWhile_append)

lemma c_str_response:
  "c_str (CDC_USB_RESET_LINE_RESPONSE @ 0 # rb) = Some CDC_USB_RESET_LINE_RESPONSE"
proof -
  have "\<forall>b\<in>set CDC_USB_RESET_LINE_RESPONSE. b \<noteq> 0"
    by (simp add: CDC_USB_RESET_LINE_RESPONSE_def)
  then show ?thesis by (simp add: c_str_def takeWhile_append)
qed

section \<open>One read completion\<close>

text \<open>
  The state a read completion leaves, by the first control byte of its chunk.
\<close>

lemma read_complete_empty:
  "read_complete tr [] st = Some (st\<lparr>isReadComplete := True, numBytesRead := 0\<rparr>)"
  by (simp add: read_complete_def usb_rx_def cdc_usb_read_line_def)

lemma read_complete_scan:
  assumes "length (cdcWriteBuffer st) = APP_READ_BUFFER_SIZE"
    and "chunk \<noteq> []" and "length chunk \<le> APP_READ_BUFFER_SIZE"
    and "scan_chunk chunk st = Some (st1, rb)"
    and "cdcWriteBuffer st1 = cdcWriteBuffer st"
    and "length rb \<le> APP_READ_BUFFER_SIZE"
    and "c_str rb = Some s"
  shows "read_complete tr chunk st = Some (submit_echo tr s (rearm tr st1))"
proof -
  have "unat (of_nat (length chunk) :: 32 word) = length chunk"
    using assms(3) by (simp add: APP_READ_BUFFER_SIZE_def unat_of_nat)
  then have nz: "(of_nat (length chunk) :: 32 word) \<noteq> 0"
    using assms(2) by (metis length_0_conv unat_0)
  have wb: "length (cdcWriteBuffer (rearm tr st1)) = APP_READ_BUFFER_SIZE"
    using assms(1,5) by (simp add: rearm_def USB_DEVICE_CDC_Read_def log_call_def)
  have "read_complete tr chunk st = map_option snd (cdc_usb_write tr (Some rb) (rearm tr st1))"
    using nz assms(4)
    by (simp add: read_complete_def cdc_usb_read_line_def scan_chunk_def rx_state_def rearm_def
        USB_DEVICE_CDC_Read_def)
  also have "\<dots> = Some (submit_echo tr s (rearm tr st1))"
    using cdc_usb_write_c_str [OF wb assms(6,7)] by simp
  finally show ?thesis .
qed

lemma rearm_simps [simp]:
  "isConfigured (rearm tr st) = isConfigured st"
  "isWriteComplete (rearm tr st) = isWriteComplete st"
  "isReadComplete (rearm tr st) = False"
  "numBytesRead (rearm tr st) = 0"
  "cdcReadBuffer (rearm tr st) = cdcReadBuffer st"
  "cdcWriteBuffer (rearm tr st) = cdcWriteBuffer st"
  "commandBuffer (rearm tr st) = commandBuffer st"
  "command_index (rearm tr st) = command_index st"
  "return_line_callback (rearm tr st) = return_line_callback st"
  "console_ready_callback (rearm tr st) = console_ready_callback st"
  "io_log (rearm tr st) = io_log st @ [Call_CDC_Read APP_READ_BUFFER_SIZE]"
  by (simp_all add: rearm_def USB_DEVICE_CDC_Read_def log_call_def)

lemma submit_echo_simps [simp]:
  "isConfigured (submit_echo tr s st) = isConfigured st"
  "isReadComplete (submit_echo tr s st) = isReadComplete st"
  "numBytesRead (submit_echo tr s st) = numBytesRead st"
  "cdcReadBuffer (submit_echo tr s st) = cdcReadBuffer st"
  "commandBuffer (submit_echo tr s st) = commandBuffer st"
  "command_index (submit_echo tr s st) = command_index st"
  "return_line_callback (submit_echo tr s st) = return_line_callback st"
  "console_ready_callback (submit_echo tr s st) = console_ready_callback st"
  "io_log (submit_echo tr s st) =
     io_log st @ (if s \<noteq> [] \<and> isConfigured st \<and> isWriteComplete st then [Call_CDC_Write s] else [])"
  by (simp_all add: submit_echo_def)

lemma terminate_line_simps [simp]:
  "isConfigured (terminate_line st) = isConfigured st"
  "isWriteComplete (terminate_line st) = isWriteComplete st"
  "cdcReadBuffer (terminate_line st) = cdcReadBuffer st"
  "cdcWriteBuffer (terminate_line st) = cdcWriteBuffer st"
  "command_index (terminate_line st) = command_index st"
  "return_line_callback (terminate_line st) = return_line_callback st"
  "console_ready_callback (terminate_line st) = console_ready_callback st"
  "io_log (terminate_line st) = io_log st"
  "commandBuffer (terminate_line st) = (commandBuffer st)[unat (command_index st) := 0]"
  by (simp_all add: terminate_line_def)

lemma cdc_usb_return_line_simps [simp]:
  "isConfigured (cdc_usb_return_line st) = isConfigured st"
  "isWriteComplete (cdc_usb_return_line st) = isWriteComplete st"
  "cdcReadBuffer (cdc_usb_return_line st) = cdcReadBuffer st"
  "cdcWriteBuffer (cdc_usb_return_line st) = cdcWriteBuffer st"
  "command_index (cdc_usb_return_line st) = 0"
  "return_line_callback (cdc_usb_return_line st) = return_line_callback st"
  "console_ready_callback (cdc_usb_return_line st) = console_ready_callback st"
  "commandBuffer (cdc_usb_return_line st) = (commandBuffer st)[0 := 0]"
  "io_log (cdc_usb_return_line st) =
     io_log st @ (case return_line_callback st of
                    None \<Rightarrow> []
                  | Some f \<Rightarrow> [Call_return_line f Ref_commandBuffer
                                 (takeWhile (\<lambda>b. b \<noteq> 0) (commandBuffer st))])"
  by (simp_all add: cdc_usb_return_line_def log_call_def split: option.splits)

lemma projections_append [simp]:
  "cdc_writes (xs @ ys) = cdc_writes xs @ cdc_writes ys"
  "cdc_reads (xs @ ys) = cdc_reads xs + cdc_reads ys"
  "line_calls (xs @ ys) = line_calls xs @ line_calls ys"
  "ready_calls (xs @ ys) = ready_calls xs + ready_calls ys"
  by (simp_all add: cdc_writes_def cdc_reads_def line_calls_def ready_calls_def)

lemma projections_single [simp]:
  "cdc_writes [] = []" "cdc_reads [] = 0" "line_calls [] = []" "ready_calls [] = 0"
  "cdc_writes [Call_CDC_Write bs] = [bs]"
  "cdc_writes [Call_CDC_Read n] = []"
  "cdc_writes [Call_return_line f r s] = []"
  "cdc_reads [Call_CDC_Read n] = 1"
  "cdc_reads [Call_CDC_Write bs] = 0"
  "cdc_reads [Call_return_line f r s] = 0"
  "line_calls [Call_return_line f r s] = [s]"
  "line_calls [Call_CDC_Read n] = []"
  "line_calls [Call_CDC_Write bs] = []"
  by (simp_all add: cdc_writes_def cdc_reads_def line_calls_def ready_calls_def)

lemma read_complete_plain:
  assumes "console_wf st" and "\<forall>c\<in>set chunk. plain c" and "chunk \<noteq> []"
    and "length chunk \<le> APP_READ_BUFFER_SIZE"
    and "length chunk < APP_READ_BUFFER_SIZE \<or> 0 \<in> set chunk"
  shows "read_complete tr chunk st =
         Some (submit_echo tr (takeWhile (\<lambda>b. b \<noteq> 0) chunk)
                 (rearm tr (store_chars chunk (rx_state chunk st))))"
proof -
  have "c_str (echo_buffer chunk) = Some (takeWhile (\<lambda>b. b \<noteq> 0) chunk)"
    using assms(5) by (auto simp: c_str_echo_buffer c_str_echo_buffer_full)
  then show ?thesis
    using assms
    by (intro read_complete_scan [where rb = "echo_buffer chunk"])
       (simp_all add: console_wf_def scan_plain echo_buffer_length)
qed

lemma read_complete_terminator:
  assumes "console_wf st" and "\<forall>c\<in>set pre. plain c"
    and "length (pre @ CDC_USB_LINE_TERMINATOR # rest) \<le> APP_READ_BUFFER_SIZE"
  shows "read_complete tr (pre @ CDC_USB_LINE_TERMINATOR # rest) st =
         Some (submit_echo tr (takeWhile (\<lambda>b. b \<noteq> 0) pre)
                 (rearm tr (cdc_usb_return_line (terminate_line
                    (store_chars pre (rx_state (pre @ CDC_USB_LINE_TERMINATOR # rest) st))))))"
proof -
  have "c_str (echo_buffer pre) = Some (takeWhile (\<lambda>b. b \<noteq> 0) pre)"
    using assms(3) by (simp add: c_str_echo_buffer)
  then show ?thesis
    using assms
    by (intro read_complete_scan [where rb = "echo_buffer pre"])
       (simp_all add: console_wf_def scan_terminator echo_buffer_length)
qed

lemma read_complete_reset:
  assumes "console_wf st" and "\<forall>c\<in>set pre. plain c"
    and "r = CDC_USB_RESET_LINE_CHAR_1 \<or> r = CDC_USB_RESET_LINE_CHAR_2"
    and "length (pre @ r # rest) \<le> APP_READ_BUFFER_SIZE"
  shows "read_complete tr (pre @ r # rest) st =
         Some (submit_echo tr CDC_USB_RESET_LINE_RESPONSE
                 (rearm tr ((store_chars pre (rx_state (pre @ r # rest) st))\<lparr>command_index := 0\<rparr>)))"
proof -
  have "length (CDC_USB_RESET_LINE_RESPONSE @ 0 # drop 15 (echo_buffer pre)) \<le> APP_READ_BUFFER_SIZE"
    using assms(4) by (simp add: response_length echo_buffer_length) (simp add: APP_READ_BUFFER_SIZE_def)
  then show ?thesis
    using assms
    by (intro read_complete_scan
          [where rb = "CDC_USB_RESET_LINE_RESPONSE @ 0 # drop 15 (echo_buffer pre)"])
       (simp_all add: console_wf_def scan_reset c_str_response)
qed

section \<open>Reading the log, and the concrete states\<close>

lemma projections_Cons [simp]:
  "cdc_writes (e # l) = (case e of Call_CDC_Write bs \<Rightarrow> [bs] | _ \<Rightarrow> []) @ cdc_writes l"
  "cdc_reads (e # l) = (case e of Call_CDC_Read n \<Rightarrow> 1 | _ \<Rightarrow> 0) + cdc_reads l"
  "line_calls (e # l) = (case e of Call_return_line f r s \<Rightarrow> [s] | _ \<Rightarrow> []) @ line_calls l"
  "ready_calls (e # l) = (case e of Call_console_ready f \<Rightarrow> 1 | _ \<Rightarrow> 0) + ready_calls l"
  by (simp_all add: cdc_writes_def cdc_reads_def line_calls_def ready_calls_def split: io.splits)

lemma replicate_update_same [simp]: "(replicate n x)[i := x] = replicate n x"
  by (induction n arbitrary: i) (simp_all split: nat.splits)

lemma console_ready_state_eq:
  "console_ready_state =
     console_init\<lparr>isConfigured := True, readTransferHandle := 1,
       return_line_callback := Some 1, console_ready_callback := Some 2,
       io_log := [Call_CDC_EventHandlerSet, Call_CDC_Read APP_READ_BUFFER_SIZE, Call_console_ready 2]\<rparr>"
  by (simp add: console_ready_state_def console_registered_def console_init_def tr_ok_def
      cdc_usb_console_ready_callback_register_def cdc_usb_return_line_callback_register_def
      cdc_usb_initialize_def USB_DEVICE_CDC_Read_def log_call_def cdc_usb_console_ready_def
      APP_READ_BUFFER_SIZE_def)

lemma console_ready_state_wf: "console_wf console_ready_state"
  by (simp add: console_ready_state_eq console_wf_def console_init_def)

section \<open>Reset and terminator chunks\<close>

text \<open>
  Claim C3. Take any state with buffers of the declared size and any chunk whose first
  control byte is a reset sentinel (7 or 8), after any number of plain bytes. Processing
  the chunk returns, leaves \<^verbatim>\<open>command_index\<close> at 0, hands \<^verbatim>\<open>cdc_usb_write\<close> exactly the
  string \<^verbatim>\<open>"\n\rReset line\r\n"\<close> (the plain bytes in front of the sentinel are overwritten
  in the echo buffer), submits exactly that string to the USB stack when the device is
  configured and no write is pending (nothing otherwise), and calls no line callback.
\<close>

theorem reset_sentinel_clears_and_acknowledges:
  assumes "console_wf st"
    and "\<forall>c\<in>set pre. plain c"
    and "r = CDC_USB_RESET_LINE_CHAR_1 \<or> r = CDC_USB_RESET_LINE_CHAR_2"
    and "length (pre @ r # rest) \<le> APP_READ_BUFFER_SIZE"
  shows "\<exists>st'. read_complete tr (pre @ r # rest) st = Some st' \<and>
           command_index st' = 0 \<and>
           outbound (pre @ r # rest) st = Some CDC_USB_RESET_LINE_RESPONSE \<and>
           cdc_writes (io_log st') =
             cdc_writes (io_log st) @
               (if isConfigured st \<and> isWriteComplete st then [CDC_USB_RESET_LINE_RESPONSE] else []) \<and>
           line_calls (io_log st') = line_calls (io_log st)"
proof -
  have ne: "CDC_USB_RESET_LINE_RESPONSE \<noteq> []"
    by (simp add: CDC_USB_RESET_LINE_RESPONSE_def)
  have "outbound (pre @ r # rest) st = Some CDC_USB_RESET_LINE_RESPONSE"
    using scan_reset [OF assms(2,3,4), of st] by (simp add: outbound_def c_str_response)
  then show ?thesis
    using ne by (simp add: read_complete_reset [OF assms])
qed

theorem reset_sentinel_witness:
  "console_wf console_ready_state \<and> plain 84 \<and> plain 117 \<and> plain 114 \<and>
   (\<exists>st'. read_complete tr_ok [84, 117, 114, 7, 110] console_ready_state = Some st' \<and>
      command_index st' = 0 \<and>
      outbound [84, 117, 114, 7, 110] console_ready_state = Some CDC_USB_RESET_LINE_RESPONSE \<and>
      cdc_writes (io_log st') = [CDC_USB_RESET_LINE_RESPONSE] \<and>
      line_calls (io_log st') = [])"
proof -
  have pl: "\<forall>c\<in>set [84, 117, 114]. plain c"
    by (simp add: plain_def CDC_USB_LINE_TERMINATOR_def CDC_USB_RESET_LINE_CHAR_1_def
        CDC_USB_RESET_LINE_CHAR_2_def)
  have len: "length ([84, 117, 114] @ 7 # [110 :: byte]) \<le> APP_READ_BUFFER_SIZE"
    by (simp add: APP_READ_BUFFER_SIZE_def)
  have r: "(7 :: byte) = CDC_USB_RESET_LINE_CHAR_1 \<or> 7 = CDC_USB_RESET_LINE_CHAR_2"
    by (simp add: CDC_USB_RESET_LINE_CHAR_1_def)
  show ?thesis
    using reset_sentinel_clears_and_acknowledges [OF console_ready_state_wf pl r len, of tr_ok] pl
      console_ready_state_wf
    by (simp add: console_ready_state_eq console_init_def cdc_writes_def line_calls_def)
qed

text \<open>
  Claim C6, as the code has it. For a chunk whose scan ends at the terminator, the
  outbound string is the plain bytes in front of the terminator, up to their first NUL;
  it is one write when it is not empty and the write gate is open. It is empty exactly
  when no byte stands in front of the terminator or the first byte of the chunk is NUL.
\<close>

theorem terminator_chunk_echoes_preceding_chars:
  assumes "console_wf st"
    and "\<forall>c\<in>set pre. plain c"
    and "length (pre @ CDC_USB_LINE_TERMINATOR # rest) \<le> APP_READ_BUFFER_SIZE"
  shows "\<exists>st'. read_complete tr (pre @ CDC_USB_LINE_TERMINATOR # rest) st = Some st' \<and>
           outbound (pre @ CDC_USB_LINE_TERMINATOR # rest) st =
             Some (takeWhile (\<lambda>b. b \<noteq> 0) pre) \<and>
           (outbound (pre @ CDC_USB_LINE_TERMINATOR # rest) st = Some [] \<longleftrightarrow>
              pre = [] \<or> hd pre = 0) \<and>
           cdc_writes (io_log st') =
             cdc_writes (io_log st) @
               (if takeWhile (\<lambda>b. b \<noteq> 0) pre \<noteq> [] \<and> isConfigured st \<and> isWriteComplete st
                then [takeWhile (\<lambda>b. b \<noteq> 0) pre] else [])"
proof -
  have out: "outbound (pre @ CDC_USB_LINE_TERMINATOR # rest) st =
          Some (takeWhile (\<lambda>b. b \<noteq> 0) pre)"
    using scan_terminator [OF assms(2,3), of st] assms(3)
    by (simp add: outbound_def c_str_echo_buffer)
  have empty: "takeWhile (\<lambda>b. b \<noteq> 0) pre = [] \<longleftrightarrow> pre = [] \<or> hd pre = 0"
    by (cases pre) simp_all
  show ?thesis
    using out empty
    by (simp add: read_complete_terminator [OF assms] split: option.splits)
qed

text \<open>
  Claim C6 as stated says that a chunk ending its scan at the terminator produces no
  outbound bytes. The chunk \<^verbatim>\<open>"ab\r"\<close> produces the write \<^verbatim>\<open>"ab"\<close>.
\<close>

theorem terminator_chunk_echo_counterexample:
  "outbound [97, 98, 13] console_ready_state = Some [97, 98] \<and>
   map_option io_log (read_complete tr_ok [97, 98, 13] console_ready_state) =
     Some (io_log console_ready_state @
           [Call_return_line 1 Ref_commandBuffer [97, 98], Call_CDC_Read 512,
            Call_CDC_Write [97, 98]])"
  by code_simp

theorem terminator_chunk_echo_witness:
  "console_wf console_ready_state \<and> plain 79 \<and> plain 75 \<and> plain 0 \<and>
   (\<exists>st'. read_complete tr_ok [79, 75, 13] console_ready_state = Some st' \<and>
      outbound [79, 75, 13] console_ready_state = Some [79, 75] \<and>
      cdc_writes (io_log st') = [[79, 75]]) \<and>
   (\<exists>st'. read_complete tr_ok [0, 97, 13] console_ready_state = Some st' \<and>
      outbound [0, 97, 13] console_ready_state = Some [] \<and>
      cdc_writes (io_log st') = [])"
proof -
  have pl: "\<forall>c\<in>set [79, 75]. plain c" and pl0: "\<forall>c\<in>set [0, 97]. plain c"
    by (simp_all add: plain_def CDC_USB_LINE_TERMINATOR_def CDC_USB_RESET_LINE_CHAR_1_def
        CDC_USB_RESET_LINE_CHAR_2_def)
  have len: "length ([79, 75] @ CDC_USB_LINE_TERMINATOR # []) \<le> APP_READ_BUFFER_SIZE"
    and len0: "length ([0, 97] @ CDC_USB_LINE_TERMINATOR # []) \<le> APP_READ_BUFFER_SIZE"
    by (simp_all add: APP_READ_BUFFER_SIZE_def)
  show ?thesis
    using terminator_chunk_echoes_preceding_chars [OF console_ready_state_wf pl len, of tr_ok]
      terminator_chunk_echoes_preceding_chars [OF console_ready_state_wf pl0 len0, of tr_ok]
      pl pl0 console_ready_state_wf
    by (auto simp add: console_ready_state_eq console_init_def CDC_USB_LINE_TERMINATOR_def)
qed

section \<open>Re-arming the read\<close>

lemma chunk_cases:
  obtains (plain) "\<forall>c\<in>set chunk. plain c"
  | (terminator) pre rest where "chunk = pre @ CDC_USB_LINE_TERMINATOR # rest" "\<forall>c\<in>set pre. plain c"
  | (reset) pre r rest where "chunk = pre @ r # rest" "\<forall>c\<in>set pre. plain c"
      "r = CDC_USB_RESET_LINE_CHAR_1 \<or> r = CDC_USB_RESET_LINE_CHAR_2"
proof (cases "\<forall>c\<in>set chunk. plain c")
  case True
  then show ?thesis by (rule plain)
next
  case False
  then have "\<exists>c\<in>set chunk. \<not> plain c" by simp
  then obtain pre c rest where sp: "chunk = pre @ c # rest" "\<not> plain c" "\<forall>y\<in>set pre. \<not> \<not> plain y"
    using split_list_first_prop [of chunk "\<lambda>c. \<not> plain c"] by blast
  from sp(2) consider "c = CDC_USB_LINE_TERMINATOR"
    | "c = CDC_USB_RESET_LINE_CHAR_1 \<or> c = CDC_USB_RESET_LINE_CHAR_2"
    by (auto simp: plain_def)
  then show ?thesis
  proof cases
    case 1
    with sp show ?thesis by (intro terminator [of pre rest]) simp_all
  next
    case 2
    with sp show ?thesis by (intro reset [of pre c rest]) simp_all
  qed
qed

lemma read_complete_reads:
  assumes "console_wf st"
    and "length chunk \<le> APP_READ_BUFFER_SIZE"
    and "echo_fits chunk"
  shows "\<exists>st'. read_complete tr chunk st = Some st' \<and>
           cdc_reads (io_log st') = cdc_reads (io_log st) + (if chunk = [] then 0 else 1)"
proof (cases "chunk = []")
  case True
  then show ?thesis by (simp add: read_complete_empty)
next
  case False
  show ?thesis
  proof (cases chunk rule: chunk_cases)
    case plain
    then have ctl: "CDC_USB_LINE_TERMINATOR \<notin> set chunk"
      "CDC_USB_RESET_LINE_CHAR_1 \<notin> set chunk" "CDC_USB_RESET_LINE_CHAR_2 \<notin> set chunk"
      by (auto simp: plain_def)
    with assms(3) have "length chunk < APP_READ_BUFFER_SIZE \<or> 0 \<in> set chunk"
      by (simp add: echo_fits_def)
    from read_complete_plain [OF assms(1) plain False assms(2) this, of tr] False
    show ?thesis by (simp split: if_splits)
  next
    case (terminator pre rest)
    from read_complete_terminator [OF assms(1) terminator(2), of rest tr] assms(2) terminator(1)
    show ?thesis by (simp split: option.splits)
  next
    case (reset pre r rest)
    from read_complete_reset [OF assms(1) reset(2,3), of rest tr] assms(2) reset(1)
    show ?thesis by simp
  qed
qed

text \<open>
  Claim C5, as the code has it. A chunk of 1 to 512 bytes whose echo keeps its NUL
  inside the local buffer is processed with exactly one new read submitted; a chunk of
  no bytes is left at the guard of \<^verbatim>\<open>cdc_usb_read_line\<close> and submits none.
\<close>

theorem nonempty_chunk_rearms_once:
  assumes "console_wf st"
    and "length chunk \<le> APP_READ_BUFFER_SIZE"
    and "echo_fits chunk"
  shows "\<exists>st'. read_complete tr chunk st = Some st' \<and>
           cdc_reads (io_log st') = cdc_reads (io_log st) + (if chunk = [] then 0 else 1)"
  using assms by (rule read_complete_reads)

text \<open>
  Claim C5 as stated includes the chunk with no data at all. A completion of length 0
  leaves the log as it was: no read is submitted.
\<close>

theorem empty_chunk_no_rearm_counterexample:
  "map_option io_log (read_complete tr_ok [] console_ready_state) =
     Some (io_log console_ready_state)"
  by (simp add: read_complete_empty)

theorem nonempty_chunk_rearms_once_witness:
  "console_wf console_ready_state \<and> echo_fits [104, 105] \<and>
   (\<exists>st'. read_complete tr_ok [104, 105] console_ready_state = Some st' \<and>
      cdc_reads (io_log st') = cdc_reads (io_log console_ready_state) + 1)"
proof -
  have len: "length [104, 105 :: byte] \<le> APP_READ_BUFFER_SIZE"
    by (simp add: APP_READ_BUFFER_SIZE_def)
  have fits: "echo_fits [104, 105]"
    by (simp add: echo_fits_def APP_READ_BUFFER_SIZE_def)
  show ?thesis
    using nonempty_chunk_rearms_once [OF console_ready_state_wf len fits, of tr_ok] fits
      console_ready_state_wf
    by simp
qed

section \<open>The write gate\<close>

text \<open>
  Claim C4. \<^verbatim>\<open>cdc_usb_write\<close> returns false and leaves the whole state, log included, as it
  was whenever the data pointer is NULL, the string is empty, the device is not configured
  or a write is pending. After a write-complete event, on a configured device, a string of
  1 to 511 bytes passes the gate: it is submitted as one write, the pending flag is set
  again, and the call returns true exactly when the USB stack accepts the submission.
\<close>

theorem cdc_usb_write_gate:
  "(data \<noteq> Some [] \<and>
      (data = None \<or> (\<exists>ds. data = Some (0 # ds)) \<or> \<not> isConfigured st \<or> \<not> isWriteComplete st)
      \<longrightarrow> cdc_usb_write tr data st = Some (False, st)) \<and>
   (s \<noteq> [] \<and> 0 \<notin> set s \<and> length s < APP_READ_BUFFER_SIZE \<and>
      length (cdcWriteBuffer st) = APP_READ_BUFFER_SIZE \<and> isConfigured st
      \<longrightarrow> (\<exists>st1 st2.
             APP_USBDeviceCDCEventHandler tr0 (USB_DEVICE_CDC_EVENT_WRITE_COMPLETE status) st = Some st1 \<and>
             isWriteComplete st1 \<and>
             cdc_usb_write tr (Some (s @ 0 # rest)) st1 =
               Some (write_result tr = USB_DEVICE_CDC_RESULT_OK, st2) \<and>
             isWriteComplete st2 = False \<and>
             io_log st2 = io_log st @ [Call_CDC_Write s]))"
proof (intro conjI impI)
  assume a: "data \<noteq> Some [] \<and>
      (data = None \<or> (\<exists>ds. data = Some (0 # ds)) \<or> \<not> isConfigured st \<or> \<not> isWriteComplete st)"
  show "cdc_usb_write tr data st = Some (False, st)"
  proof (cases data)
    case None
    then show ?thesis by (simp add: cdc_usb_write_def)
  next
    case (Some d)
    with a obtain d0 ds where d: "d = d0 # ds" by (cases d) auto
    from a Some d show ?thesis by (auto simp: cdc_usb_write_def)
  qed
next
  assume b: "s \<noteq> [] \<and> 0 \<notin> set s \<and> length s < APP_READ_BUFFER_SIZE \<and>
      length (cdcWriteBuffer st) = APP_READ_BUFFER_SIZE \<and> isConfigured st"
  obtain s0 ss where s: "s = s0 # ss" "s0 \<noteq> 0" using b by (cases s) auto
  have all: "\<forall>b\<in>set s. b \<noteq> 0" using b by auto
  then have tw: "takeWhile (\<lambda>b. b \<noteq> 0) s = s" by simp
  have cs: "c_str (s @ 0 # rest) = Some s"
    using all by (simp add: c_str_def takeWhile_append tw)
  have fit: "sprintf_s (cdcWriteBuffer st) s = Some (s @ 0 # drop (length s + 1) (cdcWriteBuffer st))"
    using b by (simp add: sprintf_s_def)
  let ?st1 = "st\<lparr>isWriteComplete := True\<rparr>"
  have "cdc_usb_write tr (Some (s @ 0 # rest)) ?st1 =
          Some (write_result tr = USB_DEVICE_CDC_RESULT_OK,
                ?st1\<lparr>cdcWriteBuffer := s @ 0 # drop (length s + 1) (cdcWriteBuffer st),
                      isWriteComplete := False,
                      writeTransferHandle := write_handle tr,
                      io_log := io_log st @ [Call_CDC_Write s]\<rparr>)"
    using b cs fit s(2) unfolding s(1)
    by (auto simp add: cdc_usb_write_def USB_DEVICE_CDC_Write_def log_call_def Let_def)
  then show "\<exists>st1 st2.
             APP_USBDeviceCDCEventHandler tr0 (USB_DEVICE_CDC_EVENT_WRITE_COMPLETE status) st = Some st1 \<and>
             isWriteComplete st1 \<and>
             cdc_usb_write tr (Some (s @ 0 # rest)) st1 =
               Some (write_result tr = USB_DEVICE_CDC_RESULT_OK, st2) \<and>
             isWriteComplete st2 = False \<and>
             io_log st2 = io_log st @ [Call_CDC_Write s]"
    by simp
qed

lemma console_busy_state_eq:
  "console_busy_state =
     console_ready_state\<lparr>cdcWriteBuffer := [104, 101, 108, 108, 111, 0] @ replicate 506 0,
       isWriteComplete := False, writeTransferHandle := 2,
       io_log := io_log console_ready_state @ [Call_CDC_Write [104, 101, 108, 108, 111]]\<rparr>"
  by code_simp

theorem cdc_usb_write_gate_witness:
  "cdc_usb_write tr_ok (Some [104, 105, 0]) console_busy_state = Some (False, console_busy_state) \<and>
   (\<exists>st1 st2.
      APP_USBDeviceCDCEventHandler tr_ok
        (USB_DEVICE_CDC_EVENT_WRITE_COMPLETE USB_DEVICE_CDC_RESULT_OK) console_busy_state = Some st1 \<and>
      cdc_usb_write tr_ok (Some [104, 105, 0]) st1 = Some (True, st2) \<and>
      io_log st2 = io_log console_busy_state @ [Call_CDC_Write [104, 105]])"
proof -
  have busy: "\<not> isWriteComplete console_busy_state" "isConfigured console_busy_state"
    "length (cdcWriteBuffer console_busy_state) = APP_READ_BUFFER_SIZE"
    by (simp_all add: console_busy_state_eq console_ready_state_eq console_init_def
        APP_READ_BUFFER_SIZE_def)
  show ?thesis
    using cdc_usb_write_gate [of "Some [104, 105, 0]" console_busy_state tr_ok "[104, 105]" tr_ok
        USB_DEVICE_CDC_RESULT_OK "[]"] busy
    by (auto simp add: tr_ok_def APP_READ_BUFFER_SIZE_def)
qed

text \<open>
  Claim C9 on the code. A submission that the USB stack refuses returns false with
  \<^verbatim>\<open>isWriteComplete\<close> left false, and the next write, on a stack that would accept it, is
  refused at the gate without a submission.
\<close>

theorem failed_write_submission_keeps_gate_closed:
  "(case cdc_usb_write tr_fail (Some [104, 105, 0]) console_ready_state of
      None \<Rightarrow> False
    | Some (ok, st1) \<Rightarrow>
        ok = False \<and> isWriteComplete st1 = False \<and>
        io_log st1 = io_log console_ready_state @ [Call_CDC_Write [104, 105]] \<and>
        cdc_usb_write tr_ok (Some [111, 107, 0]) st1 = Some (False, st1))"
  by code_simp

lemma write_complete_clears_flag:
  "\<exists>st'. APP_USBDeviceCDCEventHandler tr (USB_DEVICE_CDC_EVENT_WRITE_COMPLETE status) st = Some st' \<and>
         isWriteComplete st'"
  by simp

section \<open>The pointer handed to the line callback\<close>

text \<open>
  Claim C7, as the code has it. The line callback is passed the address of
  \<^verbatim>\<open>commandBuffer\<close> itself. The string found there during the call is the buffer up to
  its first NUL; once \<^verbatim>\<open>cdc_usb_return_line\<close> has cleared the first byte, the same pointer
  designates the empty string.
\<close>

theorem line_callback_receives_buffer_alias:
  assumes "return_line_callback st = Some f" and "commandBuffer st \<noteq> []"
  shows "io_log (cdc_usb_return_line st) =
           io_log st @ [Call_return_line f Ref_commandBuffer
                          (takeWhile (\<lambda>b. b \<noteq> 0) (commandBuffer st))] \<and>
         string_at Ref_commandBuffer (cdc_usb_return_line st) = Some [] \<and>
         command_index (cdc_usb_return_line st) = 0"
proof -
  obtain b bs where "commandBuffer st = b # bs" using assms(2) by (cases "commandBuffer st") auto
  then show ?thesis
    using assms(1) by (simp add: string_at_def deref_def c_str_def)
qed

text \<open>
  Claim C7 as stated says the handler's string is a copy that the clearing does not
  alter. After the chunk \<^verbatim>\<open>"ab\r"\<close> the callback has been passed the command buffer with
  \<^verbatim>\<open>"ab"\<close> in it, and the string at that pointer is empty when the call returns.
\<close>

theorem line_callback_alias_counterexample:
  "map_option io_log (read_complete tr_ok [97, 98, 13] console_ready_state) =
     Some (io_log console_ready_state @
           [Call_return_line 1 Ref_commandBuffer [97, 98], Call_CDC_Read 512,
            Call_CDC_Write [97, 98]]) \<and>
   map_option (string_at Ref_commandBuffer) (read_complete tr_ok [97, 98, 13] console_ready_state) =
     Some (Some [])"
  by code_simp

theorem line_callback_alias_witness:
  "return_line_callback console_ready_state = Some 1 \<and>
   io_log (cdc_usb_return_line (terminate_line (store_chars [97, 98] console_ready_state))) =
     io_log console_ready_state @ [Call_return_line 1 Ref_commandBuffer [97, 98]] \<and>
   string_at Ref_commandBuffer
     (cdc_usb_return_line (terminate_line (store_chars [97, 98] console_ready_state))) = Some []"
proof -
  let ?st = "terminate_line (store_chars [97, 98] console_ready_state)"
  have cb: "return_line_callback ?st = Some 1"
    by (simp add: console_ready_state_eq console_init_def)
  have ne: "commandBuffer ?st \<noteq> []"
    using console_ready_state_wf
    by (simp add: console_wf_def APP_READ_BUFFER_SIZE_def flip: length_0_conv)
  have buf: "takeWhile (\<lambda>b. b \<noteq> 0) (commandBuffer ?st) = [97, 98]"
    by (simp add: console_ready_state_eq console_init_def APP_READ_BUFFER_SIZE_def) code_simp
  show ?thesis
    using line_callback_receives_buffer_alias [OF cb ne] cb buf by simp
qed

section \<open>What the scan loop leaves alone\<close>





section \<open>The ready callback\<close>



section \<open>Read completions after a configuration loss\<close>

text \<open>
  Claim C2 as stated says a stale read completion after a reset changes nothing and
  fires no callback. After a reset, the chunk \<^verbatim>\<open>"a"\<close> moves the command index to 1, and the
  chunk \<^verbatim>\<open>"hi\r"\<close> calls the line callback with \<^verbatim>\<open>"hi"\<close>.
\<close>

theorem stale_read_completion_counterexample:
  "isConfigured console_lost_state = False \<and>
   command_index console_lost_state = 0 \<and>
   map_option command_index (read_complete tr_ok [97] console_lost_state) = Some 1 \<and>
   map_option io_log (read_complete tr_ok [104, 105, 13] console_lost_state) =
     Some (io_log console_lost_state @
           [Call_return_line 1 Ref_commandBuffer [104, 105], Call_CDC_Read 512])"
  by code_simp

lemma read_complete_status_ok:
  "status \<noteq> USB_DEVICE_CDC_RESULT_ERROR \<Longrightarrow>
   read_complete_status status tr chunk st = read_complete tr chunk st"
  by (simp add: read_complete_status_def read_complete_def)

lemma cdc_usb_write_unconfigured:
  "\<not> isConfigured st \<Longrightarrow> d \<noteq> [] \<Longrightarrow> cdc_usb_write tr (Some d) st = Some (False, st)"
  by (cases d) (auto simp: cdc_usb_write_def)

lemma read_complete_scan_unconfigured:
  assumes "\<not> isConfigured st1"
    and "chunk \<noteq> []" and "length chunk \<le> APP_READ_BUFFER_SIZE"
    and "scan_chunk chunk st = Some (st1, rb)"
    and "rb \<noteq> []"
  shows "read_complete tr chunk st = Some (rearm tr st1)"
proof -
  have "unat (of_nat (length chunk) :: 32 word) = length chunk"
    using assms(3) by (simp add: APP_READ_BUFFER_SIZE_def unat_of_nat)
  then have nz: "(of_nat (length chunk) :: 32 word) \<noteq> 0"
    using assms(2) by (metis length_0_conv unat_0)
  have "read_complete tr chunk st = map_option snd (cdc_usb_write tr (Some rb) (rearm tr st1))"
    using nz assms(4)
    by (simp add: read_complete_def cdc_usb_read_line_def scan_chunk_def rx_state_def rearm_def
        USB_DEVICE_CDC_Read_def)
  also have "\<dots> = Some (rearm tr st1)"
    using assms(1,5) by (simp add: cdc_usb_write_unconfigured)
  finally show ?thesis .
qed

lemma store_chars_only_reads_buffer_and_index:
  "commandBuffer a = commandBuffer b \<Longrightarrow> command_index a = command_index b \<Longrightarrow>
   commandBuffer (store_chars cs a) = commandBuffer (store_chars cs b) \<and>
   command_index (store_chars cs a) = command_index (store_chars cs b)"
proof (induction cs arbitrary: a b)
  case Nil
  then show ?case by simp
next
  case (Cons c cs)
  show ?case
    using Cons.prems by (simp only: store_chars.simps) (rule Cons.IH; simp)
qed

lemma store_chars_rx_state:
  "commandBuffer (store_chars cs (rx_state chunk st)) = commandBuffer (store_chars cs st)"
  "command_index (store_chars cs (rx_state chunk st)) = command_index (store_chars cs st)"
  using store_chars_only_reads_buffer_and_index [of "rx_state chunk st" st cs] by simp_all

lemma echo_buffer_nonempty:
  "length cs \<le> APP_READ_BUFFER_SIZE \<Longrightarrow> echo_buffer cs \<noteq> []"
  using echo_buffer_length [of cs] by (auto simp: APP_READ_BUFFER_SIZE_def)

lemma console_lost_state_eq:
  "console_lost_state = console_ready_state\<lparr>isConfigured := False\<rparr>"
  by (simp add: console_lost_state_def)

text \<open>
  Claim C2, as the code has it. After a reset or power-removed event the device is
  unconfigured. A read completion that arrives then leaves the whole state as it was when
  its status is the error status, and only sets the two read fields, which the guard of
  \<^verbatim>\<open>cdc_usb_read_line\<close> then finds, when its length is 0. A completion with any other
  status and 1 to 512 bytes is scanned: a run of plain bytes is stored through the
  command index; a terminator hands the line to the line callback, when one is
  registered, and clears the index and the first byte of the buffer; a reset sentinel
  clears the index. In each case one read is submitted and no write: the log grows by the
  callback, if any, and the read.
\<close>

theorem stale_read_completion_after_config_loss:
  assumes "ev = USB_DEVICE_EVENT_RESET \<or> ev = USB_DEVICE_EVENT_POWER_REMOVED"
    and "st0 = APP_USBDeviceEventHandler tr ev st"
    and "console_wf st"
    and "status \<noteq> USB_DEVICE_CDC_RESULT_ERROR"
  shows "isConfigured st0 = False \<and>
         APP_USBDeviceCDCEventHandler tr'
           (USB_DEVICE_CDC_EVENT_READ_COMPLETE USB_DEVICE_CDC_RESULT_ERROR len) st0 = Some st0 \<and>
         APP_USBDeviceCDCEventHandler tr' (USB_DEVICE_CDC_EVENT_READ_COMPLETE status 0) st0 =
           Some (st0\<lparr>isReadComplete := True, numBytesRead := 0\<rparr>) \<and>
         (chunk \<noteq> [] \<and> (\<forall>c\<in>set chunk. plain c) \<and> length chunk \<le> APP_READ_BUFFER_SIZE \<longrightarrow>
            (\<exists>st'. read_complete_status status tr' chunk st0 = Some st' \<and>
               commandBuffer st' = commandBuffer (store_chars chunk st0) \<and>
               command_index st' = command_index st0 + of_nat (length chunk) \<and>
               io_log st' = io_log st0 @ [Call_CDC_Read APP_READ_BUFFER_SIZE])) \<and>
         ((\<forall>c\<in>set pre. plain c) \<and>
          length (pre @ CDC_USB_LINE_TERMINATOR # rest) \<le> APP_READ_BUFFER_SIZE \<longrightarrow>
            (\<exists>st'. read_complete_status status tr' (pre @ CDC_USB_LINE_TERMINATOR # rest) st0 = Some st' \<and>
               commandBuffer st' = (commandBuffer (terminate_line (store_chars pre st0)))[0 := 0] \<and>
               command_index st' = 0 \<and>
               io_log st' =
                 io_log st0 @
                 (case return_line_callback st0 of
                    None \<Rightarrow> []
                  | Some f \<Rightarrow>
                      [Call_return_line f Ref_commandBuffer
                         (takeWhile (\<lambda>b. b \<noteq> 0)
                            (commandBuffer (terminate_line (store_chars pre st0))))]) @
                 [Call_CDC_Read APP_READ_BUFFER_SIZE])) \<and>
         ((\<forall>c\<in>set pre'. plain c) \<and>
          (r = CDC_USB_RESET_LINE_CHAR_1 \<or> r = CDC_USB_RESET_LINE_CHAR_2) \<and>
          length (pre' @ r # rest') \<le> APP_READ_BUFFER_SIZE \<longrightarrow>
            (\<exists>st'. read_complete_status status tr' (pre' @ r # rest') st0 = Some st' \<and>
               commandBuffer st' = commandBuffer (store_chars pre' st0) \<and>
               command_index st' = 0 \<and>
               io_log st' = io_log st0 @ [Call_CDC_Read APP_READ_BUFFER_SIZE]))"
proof -
  have unconf: "isConfigured st0 = False"
    using assms(1,2) by (auto simp: log_call_def)
  have err: "APP_USBDeviceCDCEventHandler tr'
           (USB_DEVICE_CDC_EVENT_READ_COMPLETE USB_DEVICE_CDC_RESULT_ERROR len) st0 = Some st0"
    by simp
  have zero: "APP_USBDeviceCDCEventHandler tr' (USB_DEVICE_CDC_EVENT_READ_COMPLETE status 0) st0 =
           Some (st0\<lparr>isReadComplete := True, numBytesRead := 0\<rparr>)"
    using assms(4) by (simp add: cdc_usb_read_line_def)
  have sc: "commandBuffer (store_chars cs (rx_state c st0)) = commandBuffer (store_chars cs st0)"
    "command_index (store_chars cs (rx_state c st0)) = command_index (store_chars cs st0)"
    "commandBuffer (terminate_line (store_chars cs (rx_state c st0))) =
       commandBuffer (terminate_line (store_chars cs st0))" for cs c
    by (simp_all add: store_chars_rx_state)
  have plain_case: "\<exists>st'. read_complete_status status tr' chunk st0 = Some st' \<and>
               commandBuffer st' = commandBuffer (store_chars chunk st0) \<and>
               command_index st' = command_index st0 + of_nat (length chunk) \<and>
               io_log st' = io_log st0 @ [Call_CDC_Read APP_READ_BUFFER_SIZE]"
    if h: "chunk \<noteq> [] \<and> (\<forall>c\<in>set chunk. plain c) \<and> length chunk \<le> APP_READ_BUFFER_SIZE"
  proof -
    let ?st1 = "store_chars chunk (rx_state chunk st0)"
    have "read_complete tr' chunk st0 = Some (rearm tr' ?st1)"
      using h unconf
      by (intro read_complete_scan_unconfigured [where rb = "echo_buffer chunk"])
         (simp_all add: scan_plain echo_buffer_nonempty)
    then show ?thesis
      using assms(4) by (simp add: read_complete_status_ok sc store_chars_index)
  qed
  have term_case: "\<exists>st'. read_complete_status status tr' (pre @ CDC_USB_LINE_TERMINATOR # rest) st0 = Some st' \<and>
               commandBuffer st' = (commandBuffer (terminate_line (store_chars pre st0)))[0 := 0] \<and>
               command_index st' = 0 \<and>
               io_log st' =
                 io_log st0 @
                 (case return_line_callback st0 of
                    None \<Rightarrow> []
                  | Some f \<Rightarrow>
                      [Call_return_line f Ref_commandBuffer
                         (takeWhile (\<lambda>b. b \<noteq> 0)
                            (commandBuffer (terminate_line (store_chars pre st0))))]) @
                 [Call_CDC_Read APP_READ_BUFFER_SIZE]"
    if h: "(\<forall>c\<in>set pre. plain c) \<and>
          length (pre @ CDC_USB_LINE_TERMINATOR # rest) \<le> APP_READ_BUFFER_SIZE"
  proof -
    let ?chunk = "pre @ CDC_USB_LINE_TERMINATOR # rest"
    let ?st1 = "cdc_usb_return_line (terminate_line (store_chars pre (rx_state ?chunk st0)))"
    have "read_complete tr' ?chunk st0 = Some (rearm tr' ?st1)"
      using h unconf
      by (intro read_complete_scan_unconfigured [where rb = "echo_buffer pre"])
         (simp_all add: scan_terminator echo_buffer_nonempty)
    then show ?thesis
      using assms(4) sc [of pre ?chunk]
      by (simp add: read_complete_status_ok split: option.splits)
  qed
  have reset_case: "\<exists>st'. read_complete_status status tr' (pre' @ r # rest') st0 = Some st' \<and>
               commandBuffer st' = commandBuffer (store_chars pre' st0) \<and>
               command_index st' = 0 \<and>
               io_log st' = io_log st0 @ [Call_CDC_Read APP_READ_BUFFER_SIZE]"
    if h: "(\<forall>c\<in>set pre'. plain c) \<and>
          (r = CDC_USB_RESET_LINE_CHAR_1 \<or> r = CDC_USB_RESET_LINE_CHAR_2) \<and>
          length (pre' @ r # rest') \<le> APP_READ_BUFFER_SIZE"
  proof -
    let ?chunk = "pre' @ r # rest'"
    let ?st1 = "(store_chars pre' (rx_state ?chunk st0))\<lparr>command_index := 0\<rparr>"
    have "read_complete tr' ?chunk st0 = Some (rearm tr' ?st1)"
      using h unconf
      by (intro read_complete_scan_unconfigured
            [where rb = "CDC_USB_RESET_LINE_RESPONSE @ 0 # drop 15 (echo_buffer pre')"])
         (simp_all add: scan_reset)
    then show ?thesis
      using assms(4) sc [of pre' ?chunk] by (simp add: read_complete_status_ok)
  qed
  show ?thesis
    using unconf err zero plain_case term_case reset_case by blast
qed

theorem stale_read_completion_witness:
  "console_wf console_ready_state \<and>
   isConfigured console_lost_state = False \<and>
   APP_USBDeviceCDCEventHandler tr_ok
     (USB_DEVICE_CDC_EVENT_READ_COMPLETE USB_DEVICE_CDC_RESULT_ERROR 3) console_lost_state =
     Some console_lost_state \<and>
   (\<exists>st'. read_complete_status (USB_DEVICE_CDC_RESULT_OTHER 5) tr_ok [97] console_lost_state = Some st' \<and>
      command_index st' = 1 \<and>
      io_log st' = io_log console_lost_state @ [Call_CDC_Read APP_READ_BUFFER_SIZE]) \<and>
   (\<exists>st'. read_complete_status (USB_DEVICE_CDC_RESULT_OTHER 5) tr_ok [104, 105, 13]
            console_lost_state = Some st' \<and>
      command_index st' = 0 \<and>
      io_log st' =
        io_log console_lost_state @
        [Call_return_line 1 Ref_commandBuffer [104, 105], Call_CDC_Read APP_READ_BUFFER_SIZE]) \<and>
   (\<exists>st'. read_complete_status (USB_DEVICE_CDC_RESULT_OTHER 5) tr_ok [7] console_lost_state = Some st' \<and>
      command_index st' = 0 \<and>
      io_log st' = io_log console_lost_state @ [Call_CDC_Read APP_READ_BUFFER_SIZE])"
proof -
  have ev: "USB_DEVICE_EVENT_RESET = USB_DEVICE_EVENT_RESET \<or>
            USB_DEVICE_EVENT_RESET = USB_DEVICE_EVENT_POWER_REMOVED" by simp
  have st: "USB_DEVICE_CDC_RESULT_OTHER 5 \<noteq> USB_DEVICE_CDC_RESULT_ERROR" by simp
  have pl: "\<forall>c\<in>set [97]. plain c" "\<forall>c\<in>set [104, 105]. plain c" "\<forall>c\<in>set ([] :: byte list). plain c"
    by (simp_all add: plain_def CDC_USB_LINE_TERMINATOR_def CDC_USB_RESET_LINE_CHAR_1_def
        CDC_USB_RESET_LINE_CHAR_2_def)
  have len: "length [97 :: byte] \<le> APP_READ_BUFFER_SIZE"
    "length ([104, 105] @ CDC_USB_LINE_TERMINATOR # []) \<le> APP_READ_BUFFER_SIZE"
    "length ([] @ (7 :: byte) # []) \<le> APP_READ_BUFFER_SIZE"
    by (simp_all add: APP_READ_BUFFER_SIZE_def)
  have r: "(7 :: byte) = CDC_USB_RESET_LINE_CHAR_1 \<or> 7 = CDC_USB_RESET_LINE_CHAR_2"
    by (simp add: CDC_USB_RESET_LINE_CHAR_1_def)
  have cb: "return_line_callback console_lost_state = Some 1"
    "command_index console_lost_state = 0"
    by (simp_all add: console_lost_state_eq console_ready_state_eq console_init_def)
  have line: "takeWhile (\<lambda>b. b \<noteq> 0)
      (commandBuffer (terminate_line (store_chars [104, 105] console_lost_state))) = [104, 105]"
    by (simp add: console_lost_state_eq console_ready_state_eq console_init_def
        APP_READ_BUFFER_SIZE_def) code_simp
  show ?thesis
    using stale_read_completion_after_config_loss
            [OF ev console_lost_state_def console_ready_state_wf st,
             where chunk = "[97]" and pre = "[104, 105]" and rest = "[]" and pre' = "[]"
               and r = 7 and rest' = "[]" and tr' = tr_ok and len = 3]
      pl len r cb line console_ready_state_wf
    by (auto simp add: CDC_USB_LINE_TERMINATOR_def)
qed

section \<open>The 8-bit command index\<close>

lemma store_chars_append: "store_chars (a @ b) st = store_chars b (store_chars a st)"
  by (induction a arbitrary: st) simp_all

lemma unat_index_less: "unat (i :: byte) < 256"
  using unsigned_less [of i, where ?'a = nat] by simp

lemma store_chars_drop_256:
  "drop 256 (commandBuffer (store_chars cs st)) = drop 256 (commandBuffer st)"
proof (induction cs arbitrary: st)
  case Nil
  then show ?case by simp
next
  case (Cons c cs)
  then show ?case using unat_index_less [of "command_index st"] by (simp add: drop_update_cancel)
qed

lemma store_chars_index_unat:
  "unat (command_index (store_chars cs st)) = (unat (command_index st) + length cs) mod 256"
  by (simp add: store_chars_index unat_word_ariths unat_of_nat mod_simps)

lemma store_chars_buffer:
  assumes "unat (command_index st) + length cs \<le> 256"
    and "256 \<le> length (commandBuffer st)"
  shows "commandBuffer (store_chars cs st) =
         take (unat (command_index st)) (commandBuffer st) @ cs @
         drop (unat (command_index st) + length cs) (commandBuffer st)"
  using assms
proof (induction cs arbitrary: st)
  case Nil
  then show ?case by simp
next
  case (Cons c cs)
  let ?n = "unat (command_index st)"
  let ?cb = "commandBuffer st"
  let ?st = "st\<lparr>commandBuffer := ?cb[?n := c], command_index := command_index st + 1\<rparr>"
  have n: "?n < length ?cb" using Cons.prems by simp
  have upd: "?cb[?n := c] = take ?n ?cb @ c # drop (Suc ?n) ?cb"
    using n by (rule upd_conv_take_nth_drop)
  show ?case
  proof (cases "cs = []")
    case True
    then show ?thesis using upd by simp
  next
    case False
    then have "?n + 1 < 256" using Cons.prems by (cases cs) simp_all
    then have idx: "unat (command_index st + 1) = Suc ?n"
      by (simp add: unat_word_ariths)
    have "commandBuffer (store_chars (c # cs) st) = commandBuffer (store_chars cs ?st)"
      by simp
    also have "\<dots> = take (Suc ?n) (?cb[?n := c]) @ cs @ drop (Suc ?n + length cs) (?cb[?n := c])"
      using Cons.IH [of ?st] Cons.prems idx by simp
    also have "take (Suc ?n) (?cb[?n := c]) = take ?n ?cb @ [c]"
      using n by (simp add: take_Suc_conv_app_nth)
    also have "drop (Suc ?n + length cs) (?cb[?n := c]) = drop (?n + length (c # cs)) ?cb"
      by (simp add: drop_update_cancel)
    finally show ?thesis by simp
  qed
qed

lemma takeWhile_stops_at:
  assumes "n < length xs" and "\<not> P (xs ! n)"
  shows "length (takeWhile P xs) \<le> n"
proof (rule ccontr)
  assume "\<not> length (takeWhile P xs) \<le> n"
  then have lt: "n < length (takeWhile P xs)" by simp
  then have "takeWhile P xs ! n \<in> set (takeWhile P xs)" by (rule nth_mem)
  then have "P (takeWhile P xs ! n)" by (rule set_takeWhileD [THEN conjunct2])
  moreover have "takeWhile P xs ! n = xs ! n" using lt by (rule takeWhile_nth)
  ultimately show False using assms(2) by simp
qed

lemma store_chars_wrap_overwrite:
  assumes "command_index st = 0" and "256 \<le> length cs" and "length cs \<le> 512"
    and "length (commandBuffer st) = 512"
  shows "take (length cs - 256) (commandBuffer (store_chars cs st)) = drop 256 cs"
proof -
  let ?a = "take 256 cs" and ?b = "drop 256 cs"
  let ?st = "store_chars ?a st"
  have la: "length ?a = 256" using assms(2) by simp
  have lb: "length ?b \<le> 256" using assms(3) by simp
  have "unat (command_index ?st) = 0"
    using assms(1) la by (simp add: store_chars_index_unat)
  moreover have "length (commandBuffer ?st) = 512" using assms(4) by simp
  ultimately have "commandBuffer (store_chars ?b ?st) =
      ?b @ drop (length ?b) (commandBuffer ?st)"
    using store_chars_buffer [of ?st ?b] lb by simp
  moreover have "store_chars cs st = store_chars ?b ?st"
    using store_chars_append [of ?a ?b st] by simp
  ultimately show ?thesis by simp
qed

lemma not_plain_terminator: "\<not> plain CDC_USB_LINE_TERMINATOR"
  by (simp add: plain_def)

lemma not_plain_reset:
  "r = CDC_USB_RESET_LINE_CHAR_1 \<or> r = CDC_USB_RESET_LINE_CHAR_2 \<Longrightarrow> \<not> plain r"
  by (auto simp: plain_def)

lemma terminated_line_length:
  assumes "length (commandBuffer st) = APP_READ_BUFFER_SIZE"
  shows "length (takeWhile (\<lambda>b. b \<noteq> 0) (commandBuffer (terminate_line st))) \<le> 255"
proof -
  let ?n = "unat (command_index st)"
  have n: "?n < 256" by (rule unat_index_less)
  then have "?n < length (commandBuffer (terminate_line st))"
    using assms by (simp add: APP_READ_BUFFER_SIZE_def)
  moreover have "\<not> (commandBuffer (terminate_line st) ! ?n \<noteq> 0)"
    using assms n by (simp add: APP_READ_BUFFER_SIZE_def)
  ultimately have "length (takeWhile (\<lambda>b. b \<noteq> 0) (commandBuffer (terminate_line st))) \<le> ?n"
    by (rule takeWhile_stops_at)
  with n show ?thesis by simp
qed

text \<open>
  Claim C10, as the code has it. Processing any chunk of at most 512 bytes leaves the
  command buffer at its 512 bytes and never touches a byte at position 256 or beyond, and
  every string handed to the line callback has at most 255 bytes. For a chunk of plain
  bytes the index advances modulo 256, and from index 0 the bytes beyond the 256th
  overwrite the buffer from position 0.
\<close>

theorem command_index_wraps_mod_256:
  assumes "console_wf st"
    and "length chunk \<le> APP_READ_BUFFER_SIZE"
    and "echo_fits chunk"
  shows "\<exists>st' new. read_complete tr chunk st = Some st' \<and>
           length (commandBuffer st') = APP_READ_BUFFER_SIZE \<and>
           drop 256 (commandBuffer st') = drop 256 (commandBuffer st) \<and>
           line_calls (io_log st') = line_calls (io_log st) @ new \<and>
           (\<forall>s\<in>set new. length s \<le> 255) \<and>
           ((\<forall>c\<in>set chunk. plain c) \<longrightarrow>
              unat (command_index st') = (unat (command_index st) + length chunk) mod 256 \<and>
              (command_index st = 0 \<and> 256 \<le> length chunk \<longrightarrow>
                 take (length chunk - 256) (commandBuffer st') = drop 256 chunk))"
proof (cases "chunk = []")
  case True
  have "unat (command_index st) mod 256 = unat (command_index st)"
    using unat_index_less [of "command_index st"] by simp
  with True assms(1) show ?thesis
    by (simp add: read_complete_empty console_wf_def)
next
  case False
  have cb: "length (commandBuffer st) = APP_READ_BUFFER_SIZE"
    using assms(1) by (simp add: console_wf_def)
  show ?thesis
  proof (cases chunk rule: chunk_cases)
    case plain
    then have ctl: "CDC_USB_LINE_TERMINATOR \<notin> set chunk"
      "CDC_USB_RESET_LINE_CHAR_1 \<notin> set chunk" "CDC_USB_RESET_LINE_CHAR_2 \<notin> set chunk"
      by (auto simp: plain_def)
    with assms(3) have fits: "length chunk < APP_READ_BUFFER_SIZE \<or> 0 \<in> set chunk"
      by (simp add: echo_fits_def)
    let ?st' = "submit_echo tr (takeWhile (\<lambda>b. b \<noteq> 0) chunk)
                 (rearm tr (store_chars chunk (rx_state chunk st)))"
    have res: "read_complete tr chunk st = Some ?st'"
      by (rule read_complete_plain [OF assms(1) plain False assms(2) fits])
    have wrap: "take (length chunk - 256) (commandBuffer ?st') = drop 256 chunk"
      if "command_index st = 0 \<and> 256 \<le> length chunk"
      using that assms(2) cb store_chars_wrap_overwrite [of "rx_state chunk st" chunk]
      by (simp add: APP_READ_BUFFER_SIZE_def)
    have "line_calls (io_log ?st') = line_calls (io_log st) @ []"
      by simp
    then show ?thesis
      using res cb wrap
      by (intro exI [of _ ?st'] exI [of _ "[]"])
         (simp add: store_chars_drop_256 store_chars_index_unat)
  next
    case (terminator pre rest)
    let ?S = "store_chars pre (rx_state chunk st)"
    let ?st' = "submit_echo tr (takeWhile (\<lambda>b. b \<noteq> 0) pre)
                 (rearm tr (cdc_usb_return_line (terminate_line ?S)))"
    let ?new = "case return_line_callback st of
                  None \<Rightarrow> []
                | Some f \<Rightarrow> [takeWhile (\<lambda>b. b \<noteq> 0) (commandBuffer (terminate_line ?S))]"
    have res: "read_complete tr chunk st = Some ?st'"
      using read_complete_terminator [OF assms(1) terminator(2), of rest tr] assms(2)
      unfolding terminator(1) by simp
    have np: "(\<forall>c\<in>set chunk. plain c) = False"
      using terminator(1) not_plain_terminator by auto
    have len: "\<forall>s\<in>set ?new. length s \<le> 255"
      using terminated_line_length [of ?S] cb by (simp split: option.splits)
    have lc: "line_calls (io_log ?st') = line_calls (io_log st) @ ?new"
      by (simp split: option.splits)
    have dr: "drop 256 (commandBuffer ?st') = drop 256 (commandBuffer st)"
      using unat_index_less [of "command_index ?S"]
      by (simp add: drop_update_cancel store_chars_drop_256)
    show ?thesis
      using res len lc dr cb
      by (intro exI [of _ ?st'] exI [of _ ?new]) (simp add: np)
  next
    case (reset pre r rest)
    let ?st' = "submit_echo tr CDC_USB_RESET_LINE_RESPONSE
                 (rearm tr ((store_chars pre (rx_state chunk st))\<lparr>command_index := 0\<rparr>))"
    have res: "read_complete tr chunk st = Some ?st'"
      using read_complete_reset [OF assms(1) reset(2,3), of rest tr] assms(2)
      unfolding reset(1) by simp
    have np: "(\<forall>c\<in>set chunk. plain c) = False"
      using reset(1) not_plain_reset [OF reset(3)] by auto
    show ?thesis
      using res cb
      by (intro exI [of _ ?st'] exI [of _ "[]"]) (simp add: np store_chars_drop_256)
  qed
qed

lemma wrapped_line_is_empty:
  assumes "console_wf st" and "command_index st = 0" and "return_line_callback st = Some f"
    and "\<forall>c\<in>set S. plain c" and "length S = 256"
  shows "\<exists>st'. read_complete tr (S @ [CDC_USB_LINE_TERMINATOR]) st = Some st' \<and>
               line_calls (io_log st') = line_calls (io_log st) @ [[]]"
proof -
  let ?S = "store_chars S (rx_state (S @ [CDC_USB_LINE_TERMINATOR]) st)"
  have len: "length (S @ [CDC_USB_LINE_TERMINATOR]) \<le> APP_READ_BUFFER_SIZE"
    using assms(5) by (simp add: APP_READ_BUFFER_SIZE_def)
  have "unat (command_index ?S) = 0"
    using assms(2,5) by (simp add: store_chars_index_unat)
  moreover have "length (commandBuffer ?S) = 512"
    using assms(1) by (simp add: console_wf_def APP_READ_BUFFER_SIZE_def)
  then have "commandBuffer ?S \<noteq> []" by (metis list.size(3) zero_neq_numeral)
  ultimately have "takeWhile (\<lambda>b. b \<noteq> 0) (commandBuffer (terminate_line ?S)) = []"
    by (cases "commandBuffer ?S") (simp_all del: store_chars_frame)
  then show ?thesis
    using assms(3) by (simp add: read_complete_terminator [OF assms(1,4) len])
qed

lemma plain_replicate: "plain c \<Longrightarrow> \<forall>x\<in>set (replicate n c). plain x"
  by simp

lemma plain_letters: "plain 97" "plain 98"
  by (simp_all add: plain_def CDC_USB_LINE_TERMINATOR_def CDC_USB_RESET_LINE_CHAR_1_def
      CDC_USB_RESET_LINE_CHAR_2_def)

lemma console_ready_state_fields:
  "command_index console_ready_state = 0"
  "return_line_callback console_ready_state = Some 1"
  "console_ready_callback console_ready_state = Some 2"
  "isConfigured console_ready_state"
  "isWriteComplete console_ready_state"
  "io_log console_ready_state =
     [Call_CDC_EventHandlerSet, Call_CDC_Read APP_READ_BUFFER_SIZE, Call_console_ready 2]"
  "commandBuffer console_ready_state = replicate APP_READ_BUFFER_SIZE 0"
  by (simp_all add: console_ready_state_eq console_init_def)

text \<open>
  Claim C1 on the code. The line of 256 letters \<^verbatim>\<open>a\<close>, shorter than the capacity of
  512, followed by the terminator: the line callback is called once, with the empty string.
\<close>

theorem line_of_256_bytes_is_lost:
  "\<exists>st'. read_complete tr_ok (replicate 256 97 @ [13]) console_ready_state = Some st' \<and>
         line_calls (io_log st') = [[]] \<and> [] \<noteq> replicate 256 (97 :: byte)"
proof -
  have "length (replicate 256 (97 :: byte)) = 256" by simp
  from wrapped_line_is_empty [OF console_ready_state_wf console_ready_state_fields(1,2)
      plain_replicate [OF plain_letters(1)] this, of tr_ok]
  show ?thesis
    by (simp add: console_ready_state_fields CDC_USB_LINE_TERMINATOR_def)
qed

text \<open>
  Claim C10 as stated gives 256 bytes as the longest line. A line of 256 bytes followed
  by the terminator reaches the callback as the empty string.
\<close>

theorem max_line_length_counterexample:
  "map_option (line_calls \<circ> io_log)
     (read_complete tr_ok (replicate 256 98 @ [13]) console_ready_state) = Some [[]]"
proof -
  have "length (replicate 256 (98 :: byte)) = 256" by simp
  from wrapped_line_is_empty [OF console_ready_state_wf console_ready_state_fields(1,2)
      plain_replicate [OF plain_letters(2)] this, of tr_ok]
  show ?thesis
    by (auto simp add: console_ready_state_fields CDC_USB_LINE_TERMINATOR_def)
qed

theorem command_index_wraps_witness:
  "console_wf console_ready_state \<and> echo_fits (replicate 300 97) \<and>
   (\<exists>st'. read_complete tr_ok (replicate 300 97) console_ready_state = Some st' \<and>
      unat (command_index st') = 44 \<and>
      take 44 (commandBuffer st') = replicate 44 97 \<and>
      drop 256 (commandBuffer st') = replicate 256 0)"
proof -
  have len: "length (replicate 300 (97 :: byte)) \<le> APP_READ_BUFFER_SIZE"
    and fits: "echo_fits (replicate 300 97)"
    by (simp_all add: APP_READ_BUFFER_SIZE_def echo_fits_def)
  from command_index_wraps_mod_256 [OF console_ready_state_wf len fits, of tr_ok]
  obtain st' where "read_complete tr_ok (replicate 300 97) console_ready_state = Some st'"
    and "drop 256 (commandBuffer st') = drop 256 (commandBuffer console_ready_state)"
    and "(\<forall>c\<in>set (replicate 300 97). plain c) \<longrightarrow>
           unat (command_index st') =
             (unat (command_index console_ready_state) + length (replicate 300 (97 :: byte))) mod 256 \<and>
           (command_index console_ready_state = 0 \<and> 256 \<le> length (replicate 300 (97 :: byte)) \<longrightarrow>
              take (length (replicate 300 (97 :: byte)) - 256) (commandBuffer st') =
                drop 256 (replicate 300 97))"
    by blast
  then show ?thesis
    using fits console_ready_state_wf plain_letters(1)
    by (simp add: console_ready_state_fields APP_READ_BUFFER_SIZE_def)
qed

section \<open>Lines of fewer than 256 bytes\<close>

text \<open>
  A line of fewer than 256 plain bytes other than NUL, delivered in any number of non-empty chunks and followed by the terminator, reaches the line callback once and whole, and the command index is 0 afterwards.
\<close>

lemma submit_echo_write_buffer_length:
  "length s < length (cdcWriteBuffer st) \<Longrightarrow>
   length (cdcWriteBuffer (submit_echo tr s st)) = length (cdcWriteBuffer st)"
  by (auto simp add: submit_echo_def)

lemma plain_chunk_state:
  assumes "console_wf st" and "\<forall>c\<in>set chunk. plain c" and "chunk \<noteq> []"
    and "length chunk < APP_READ_BUFFER_SIZE"
    and "st1 = submit_echo tr (takeWhile (\<lambda>b. b \<noteq> 0) chunk)
                 (rearm tr (store_chars chunk (rx_state chunk st)))"
  shows "read_complete tr chunk st = Some st1"
    and "console_wf st1"
    and "commandBuffer st1 = commandBuffer (store_chars chunk (rx_state chunk st))"
    and "command_index st1 = command_index (store_chars chunk (rx_state chunk st))"
    and "return_line_callback st1 = return_line_callback st"
    and "line_calls (io_log st1) = line_calls (io_log st)"
proof -
  show "read_complete tr chunk st = Some st1"
    unfolding assms(5) using assms(1-4) by (intro read_complete_plain) simp_all
  have "length (takeWhile (\<lambda>b. b \<noteq> 0) chunk) < APP_READ_BUFFER_SIZE"
    using assms(4) length_takeWhile_le [of "\<lambda>b. b \<noteq> 0" chunk] by simp
  then show "console_wf st1"
    using assms(1,4) unfolding assms(5)
    by (simp add: console_wf_def submit_echo_write_buffer_length)
  show "commandBuffer st1 = commandBuffer (store_chars chunk (rx_state chunk st))"
    and "command_index st1 = command_index (store_chars chunk (rx_state chunk st))"
    and "return_line_callback st1 = return_line_callback st"
    and "line_calls (io_log st1) = line_calls (io_log st)"
    unfolding assms(5) by simp_all
qed

lemma terminated_buffer_string:
  assumes "\<forall>c\<in>set line. c \<noteq> 0" and "length line < length cb"
    and "take (length line) cb = line"
  shows "takeWhile (\<lambda>b. b \<noteq> 0) (cb[length line := 0]) = line"
proof -
  have "cb[length line := 0] = take (length line) cb @ 0 # drop (Suc (length line)) cb"
    using assms(2) by (rule upd_conv_take_nth_drop)
  then have "cb[length line := 0] = line @ 0 # drop (Suc (length line)) cb"
    using assms(3) by simp
  then show ?thesis using assms(1) by (simp add: takeWhile_append)
qed

lemma deliver_line_general:
  assumes "console_wf st" and "return_line_callback st = Some f"
    and "unat (command_index st) = length done"
    and "take (length done) (commandBuffer st) = done"
    and "concat chunks = todo @ [CDC_USB_LINE_TERMINATOR]"
    and "\<forall>c\<in>set (done @ todo). plain c \<and> c \<noteq> 0"
    and "length (done @ todo) < 256"
    and "\<forall>chunk\<in>set chunks. chunk \<noteq> []"
  shows "\<exists>st'. deliver tr chunks st = Some st' \<and>
               line_calls (io_log st') = line_calls (io_log st) @ [done @ todo] \<and>
               command_index st' = 0"
  using assms
proof (induction chunks arbitrary: st "done" todo)
  case Nil
  then show ?case by simp
next
  case (Cons chunk chunks)
  have cb: "length (commandBuffer st) = 512"
    using Cons.prems(1) by (simp add: console_wf_def APP_READ_BUFFER_SIZE_def)
  have ne: "chunk \<noteq> []" using Cons.prems(8) by simp
  let ?rx = "rx_state chunk st"
  show ?case
  proof (cases "chunks = []")
    case True
    then have chunk: "chunk = todo @ [CDC_USB_LINE_TERMINATOR]"
      using Cons.prems(5) by simp
    have pl: "\<forall>c\<in>set todo. plain c" using Cons.prems(6) by simp
    have len: "length (todo @ CDC_USB_LINE_TERMINATOR # []) \<le> APP_READ_BUFFER_SIZE"
      using Cons.prems(7) by (simp add: APP_READ_BUFFER_SIZE_def)
    let ?S = "store_chars todo (rx_state (todo @ CDC_USB_LINE_TERMINATOR # []) st)"
    have buf: "commandBuffer ?S = done @ todo @ drop (length done + length todo) (commandBuffer st)"
      using store_chars_buffer [of "rx_state (todo @ CDC_USB_LINE_TERMINATOR # []) st" todo]
        Cons.prems(3,4,7) cb by simp
    have idx: "unat (command_index ?S) = length (done @ todo)"
      using Cons.prems(3,7) by (simp add: store_chars_index_unat)
    have "takeWhile (\<lambda>b. b \<noteq> 0) ((commandBuffer ?S)[length (done @ todo) := 0]) = done @ todo"
      using Cons.prems(6,7) cb buf by (intro terminated_buffer_string) auto
    then have line: "takeWhile (\<lambda>b. b \<noteq> 0) (commandBuffer (terminate_line ?S)) = done @ todo"
      using idx by simp
    show ?thesis
      using read_complete_terminator [OF Cons.prems(1) pl len, of tr] line Cons.prems(2) True chunk
      by simp
  next
    case False
    then have "concat chunks \<noteq> []" using Cons.prems(8) by (cases chunks) auto
    then obtain todo' where cc: "concat chunks = todo' @ [CDC_USB_LINE_TERMINATOR]"
      and todo: "todo = chunk @ todo'"
      using Cons.prems(5)
      by (metis append_assoc append_butlast_last_id butlast_snoc concat.simps(2) last_appendR
          last_snoc)
    have pl: "\<forall>c\<in>set chunk. plain c" using Cons.prems(6) todo by simp
    have len: "length chunk < APP_READ_BUFFER_SIZE"
      using Cons.prems(7) todo by (simp add: APP_READ_BUFFER_SIZE_def)
    let ?st1 = "submit_echo tr (takeWhile (\<lambda>b. b \<noteq> 0) chunk)
                  (rearm tr (store_chars chunk ?rx))"
    note st1 = plain_chunk_state [OF Cons.prems(1) pl ne len refl, of tr]
    have buf: "commandBuffer ?st1 =
               done @ chunk @ drop (length done + length chunk) (commandBuffer st)"
      using store_chars_buffer [of ?rx chunk] Cons.prems(3,4,7) cb todo st1(3) by simp
    have idx: "unat (command_index ?st1) = length (done @ chunk)"
      using Cons.prems(3,7) todo st1(4) by (simp add: store_chars_index_unat)
    have tk: "take (length (done @ chunk)) (commandBuffer ?st1) = done @ chunk"
      using buf by simp
    have "\<exists>st'. deliver tr chunks ?st1 = Some st' \<and>
               line_calls (io_log st') = line_calls (io_log ?st1) @ [(done @ chunk) @ todo'] \<and>
               command_index st' = 0"
      using st1(2) st1(5) Cons.prems(2) idx tk cc Cons.prems(6,7,8) todo
      by (intro Cons.IH) simp_all
    then show ?thesis
      using st1(1) st1(6) todo by simp
  qed
qed

lemma line_delivered_below_256:
  assumes "console_wf st" and "command_index st = 0" and "return_line_callback st = Some f"
    and "concat chunks = S @ [CDC_USB_LINE_TERMINATOR]"
    and "\<forall>c\<in>set S. plain c \<and> c \<noteq> 0"
    and "length S < 256"
    and "\<forall>chunk\<in>set chunks. chunk \<noteq> []"
  shows "\<exists>st'. deliver tr chunks st = Some st' \<and>
               line_calls (io_log st') = line_calls (io_log st) @ [S] \<and>
               command_index st' = 0"
  using deliver_line_general [of st f "[]" chunks S tr] assms by simp

end
